theory Spec2Isabelle
  imports Main "HOL-Library.Multiset"
begin

section \<open>The guides collection of ggplot/guides/guides.py\<close>

text \<open>
  The class \<open>guides\<close> is a dictionary from aesthetic names to guide specifications with
  the methods \<open>build\<close>, \<open>train\<close>, \<open>validate\<close>, \<open>merge\<close>, \<open>create_geoms\<close>, \<open>draw\<close> and
  \<open>assemble\<close>. Guide objects are mutable Python objects that the methods share by
  reference, so they live in a store indexed by addresses; the theme's parameter
  dictionary is the second piece of mutable state. Exceptions are values of type
  \<open>error\<close>, and every method returns the state it leaves behind together with either the
  error it raised or its result.
\<close>

subsection \<open>Values\<close>

type_synonym addr = nat

text \<open>
  A guide specification as it is found in the collection or on a scale: \<open>None\<close>,
  \<open>False\<close>, a string, a reference to an instance of the guide class, or any other
  object (given by its printed form, which is all the code uses of it).
\<close>

datatype spec = SNone | SFalse | SStr string | SGuide addr | SOther string

text \<open>A value of the theme's parameter dictionary; \<open>PNone\<close> is Python's \<open>None\<close>.\<close>

datatype pval = PNone | PStr string | PNum int

text \<open>The attribute \<open>available_aes\<close>: the string \<open>'any'\<close> or a collection of names.\<close>

datatype avail = AvailAny | AvailSet "string list"

text \<open>The attribute \<open>title\<close>: the waiver object or a string.\<close>

datatype title = Waive | Title string

datatype error =
    GgplotError "string list"
  | IndexError
  | KeyError string

text \<open>
  A guide object. Only the attributes that guides.py reads or writes are named; what
  the guide classes keep besides is the extension of the record.
\<close>

record 'h guide =
  class_name :: string
  available_aes :: avail
  title :: title
  direction :: pval
  order :: int
  hash :: 'h

record scale =
  aesthetics :: "string list"
  guide :: spec
  name :: "string option"

record plot =
  scales :: "scale list"
  labels :: "string \<rightharpoonup> string"

text \<open>The boxes of matplotlib.offsetbox, by the arguments they were built from.\<close>

datatype 'b offsetbox =
    VPacker "'b list" pval int int
  | HPacker "'b list" pval int int

subsection \<open>State\<close>

type_synonym ('h, 'x) heap = "addr \<Rightarrow> ('h, 'x) guide_scheme"

text \<open>
  \<open>heap\<close> holds the guide objects, \<open>params\<close> is \<open>plot.theme.params\<close>, and \<open>rendered\<close> is
  a history variable: the boxes that calls of a guide's \<open>draw\<close> have returned so far,
  oldest first.
\<close>

record ('h, 'x, 'b) state =
  heap :: "('h, 'x) heap"
  params :: "string \<rightharpoonup> pval"
  rendered :: "'b list"

type_synonym ('h, 'x, 'b, 'a) action =
  "('h, 'x, 'b) state \<Rightarrow> ('h, 'x, 'b) state \<times> (error + 'a)"

definition and_then ::
  "('h, 'x, 'b, 'a) action \<Rightarrow> ('a \<Rightarrow> ('h, 'x, 'b, 'c) action) \<Rightarrow> ('h, 'x, 'b, 'c) action" where
  "and_then m f st =
     (case m st of
        (st', Inl e) \<Rightarrow> (st', Inl e)
      | (st', Inr x) \<Rightarrow> f x st')"

definition return :: "'a \<Rightarrow> ('h, 'x, 'b, 'a) action" where
  "return x st = (st, Inr x)"

definition raise :: "error \<Rightarrow> ('h, 'x, 'b, 'a) action" where
  "raise e st = (st, Inl e)"

subsection \<open>Collaborators\<close>

text \<open>
  The guide classes, the registry and numpy are not part of guides.py; they are
  parameters of the model. A guide's methods may read and change the guide objects,
  and they receive the theme's parameters but do not change them (the specification
  names \<open>build\<close> as their only writer); they do not raise. \<open>registry k\<close> is the whole
  expression \<open>Registry[k]()\<close>: it fails, or it returns a new object. \<open>argsort\<close> is
  \<open>numpy.argsort\<close> with its default sorting kind.
\<close>

record ('h, 'x, 'b) collab =
  registry :: "string \<Rightarrow> ('h, 'x) heap \<Rightarrow> (error + spec) \<times> ('h, 'x) heap"
  g_train :: "addr \<Rightarrow> scale \<Rightarrow> ('h, 'x) heap \<Rightarrow> addr option \<times> ('h, 'x) heap"
  g_merge :: "addr \<Rightarrow> addr \<Rightarrow> ('h, 'x) heap \<Rightarrow> addr \<times> ('h, 'x) heap"
  g_create_geoms :: "addr \<Rightarrow> plot \<Rightarrow> ('h, 'x) heap \<Rightarrow> addr option \<times> ('h, 'x) heap"
  g_set_defaults :: "addr \<Rightarrow> (string \<rightharpoonup> pval) \<Rightarrow> ('h, 'x) heap \<Rightarrow> ('h, 'x) heap"
  g_draw :: "addr \<Rightarrow> (string \<rightharpoonup> pval) \<Rightarrow> ('h, 'x) heap \<Rightarrow> 'b \<times> ('h, 'x) heap"
  argsort :: "int list \<Rightarrow> nat list"

subsection \<open>Construction\<close>

definition aes_names :: "string set" where
  "aes_names = {''alpha'', ''color'', ''fill'', ''linetype'', ''shape'', ''size''}"

text \<open>\<open>guides.__init__\<close>: the keyword arguments are a dictionary.\<close>

definition guides_init :: "(string \<rightharpoonup> 'v) \<Rightarrow> (string \<rightharpoonup> 'v)" where
  "guides_init kwargs =
     (let kwargs' =
        (case kwargs ''colour'' of
           Some v \<Rightarrow> (kwargs(''colour'' := None))(''color'' \<mapsto> v)
         | None \<Rightarrow> kwargs)
      in kwargs' |` aes_names)"

subsection \<open>Filling the legend options of the theme\<close>

definition get_param :: "string \<Rightarrow> ('h, 'x, 'b, pval) action" where
  "get_param key st =
     (case params st key of
        None \<Rightarrow> (st, Inl (KeyError key))
      | Some v \<Rightarrow> (st, Inr v))"

text \<open>The local function \<open>set_if_none\<close> of \<open>build\<close>.\<close>

definition set_if_none :: "string \<Rightarrow> pval \<Rightarrow> ('h, 'x, 'b, unit) action" where
  "set_if_none key val st =
     (case params st key of
        None \<Rightarrow> (st, Inl (KeyError key))
      | Some v \<Rightarrow>
          if v = PNone then (st\<lparr>params := (params st)(key \<mapsto> val)\<rparr>, Inr ())
          else (st, Inr ()))"

text \<open>
  The first part of \<open>build\<close>, up to the call of \<open>train\<close>. The second argument of a call
  of \<open>set_if_none\<close> is evaluated before the call, so \<open>params['legend_key_size']\<close> is
  read first.
\<close>

definition set_legend_defaults :: "('h, 'x, 'b, unit) action" where
  "set_legend_defaults =
     and_then (set_if_none ''legend_box'' (PStr ''vertical'')) (\<lambda>_.
     and_then (get_param ''legend_key_size'') (\<lambda>size1.
     and_then (set_if_none ''legend_key_width'' size1) (\<lambda>_.
     and_then (get_param ''legend_key_size'') (\<lambda>size2.
     and_then (set_if_none ''legend_key_height'' size2) (\<lambda>_.
     and_then (set_if_none ''legend_box'' (PStr ''vertical'')) (\<lambda>_.
     and_then (set_if_none ''legend_position'' (PStr ''right'')) (\<lambda>_.
     and_then (get_param ''legend_position'') (\<lambda>position.
     and_then
       (if position \<in> {PStr ''top'', PStr ''bottom''}
        then set_if_none ''legend_direction'' (PStr ''horizontal'')
        else set_if_none ''legend_direction'' (PStr ''vertical'')) (\<lambda>_.
     if position \<in> {PStr ''left'', PStr ''right''}
     then set_if_none ''legend_box_just'' (PStr ''left'')
     else set_if_none ''legend_box_just'' (PStr ''center''))))))))))"

subsection \<open>train and validate\<close>

definition get_guide :: "addr \<Rightarrow> ('h, 'x, 'b, ('h, 'x) guide_scheme) action" where
  "get_guide a st = (st, Inr (heap st a))"

definition set_title :: "addr \<Rightarrow> title \<Rightarrow> ('h, 'x, 'b, unit) action" where
  "set_title a t st = (st\<lparr>heap := (heap st)(a := (heap st a)\<lparr>title := t\<rparr>)\<rparr>, Inr ())"

definition set_direction :: "addr \<Rightarrow> pval \<Rightarrow> ('h, 'x, 'b, unit) action" where
  "set_direction a d st = (st\<lparr>heap := (heap st)(a := (heap st a)\<lparr>direction := d\<rparr>)\<rparr>, Inr ())"

definition set_order :: "addr \<Rightarrow> int \<Rightarrow> ('h, 'x, 'b) state \<Rightarrow> ('h, 'x, 'b) state" where
  "set_order a n st = st\<lparr>heap := (heap st)(a := (heap st a)\<lparr>order := n\<rparr>)\<rparr>"

text \<open>What \<open>"{}".format\<close> prints for a specification that is not a guide object.\<close>

fun format_spec :: "spec \<Rightarrow> string" where
  "format_spec SNone = ''None''"
| "format_spec SFalse = ''False''"
| "format_spec (SStr s) = s"
| "format_spec (SOther s) = s"
| "format_spec (SGuide a) = ''guide''"

text \<open>
  What \<open>"{}".format\<close> prints for a list of strings: the \<open>repr\<close> of every string. \<open>repr\<close>
  puts a string in single quotes, or in double quotes when it holds a single quote and
  no double quote, and escapes the backslash and the quote it uses. Control characters,
  which \<open>repr\<close> escapes as well, are taken not to occur in the name of an aesthetic.
\<close>

definition repr_str :: "string \<Rightarrow> string" where
  "repr_str s =
     (let q = (if CHR 0x27 \<in> set s \<and> CHR 0x22 \<notin> set s then CHR 0x22 else CHR 0x27)
      in q # concat (map (\<lambda>c. if c = q \<or> c = CHR 0x5C then [CHR 0x5C, c] else [c]) s) @ [q])"

fun format_items :: "string list \<Rightarrow> string" where
  "format_items [] = []"
| "format_items [s] = repr_str s"
| "format_items (s # ss) = repr_str s @ '', '' @ format_items ss"

definition format_list :: "string list \<Rightarrow> string" where
  "format_list ss = ''['' @ format_items ss @ '']''"

definition validate :: "('h, 'x, 'b) collab \<Rightarrow> spec \<Rightarrow> ('h, 'x, 'b, addr) action" where
  "validate C guide0 st =
     (case (case guide0 of
              SStr s \<Rightarrow> registry C (''guide_'' @ s) (heap st)
            | _ \<Rightarrow> (Inr guide0, heap st)) of
        (Inl e, h) \<Rightarrow> (st\<lparr>heap := h\<rparr>, Inl e)
      | (Inr g, h) \<Rightarrow>
          (case g of
             SGuide a \<Rightarrow> (st\<lparr>heap := h\<rparr>, Inr a)
           | _ \<Rightarrow> (st\<lparr>heap := h\<rparr>, Inl (GgplotError [''Unknown guide: '' @ format_spec g]))))"

text \<open>\<open>self.get(output, scale.guide)\<close>, the lookup with a default of the dictionary.\<close>

definition dict_get :: "(string \<rightharpoonup> 'v) \<Rightarrow> string \<Rightarrow> 'v \<Rightarrow> 'v" where
  "dict_get d k dflt = (case d k of Some v \<Rightarrow> v | None \<Rightarrow> dflt)"

definition in_avail :: "string \<Rightarrow> avail \<Rightarrow> bool" where
  "in_avail a av = (case av of AvailAny \<Rightarrow> False | AvailSet names \<Rightarrow> a \<in> set names)"

text \<open>
  One iteration of the loop of \<open>train\<close>: \<open>None\<close> where the loop continues without
  appending, the trained guide otherwise.
\<close>

definition train_scale ::
  "('h, 'x, 'b) collab \<Rightarrow> (string \<rightharpoonup> spec) \<Rightarrow> plot \<Rightarrow> scale \<Rightarrow> ('h, 'x, 'b, addr option) action" where
  "train_scale C self plt scl =
     (case aesthetics scl of
        [] \<Rightarrow> raise IndexError
      | output # _ \<Rightarrow>
          (let guide0 = dict_get self output (guide scl) in
           if guide0 = SNone \<or> guide0 = SFalse then return None
           else
             and_then (validate C guide0) (\<lambda>g.
             and_then (get_guide g) (\<lambda>obj.
             if available_aes obj \<noteq> AvailAny \<and> \<not> in_avail output (available_aes obj)
             then raise (GgplotError
                    [class_name obj @ '' cannot be used for '' @ format_list (aesthetics scl)])
             else
               and_then
                 (if title obj = Waive then
                    (case name scl of
                       Some n \<Rightarrow>
                         if n \<noteq> [] then set_title g (Title n)
                         else (case labels plt output of
                                 None \<Rightarrow> raise (KeyError output)
                               | Some l \<Rightarrow> set_title g (Title l))
                     | None \<Rightarrow>
                         (case labels plt output of
                            None \<Rightarrow> raise (KeyError output)
                          | Some l \<Rightarrow> set_title g (Title l)))
                  else return ()) (\<lambda>_.
               and_then
                 (if direction obj = PNone
                  then and_then (get_param ''legend_direction'') (set_direction g)
                  else return ()) (\<lambda>_.
               (\<lambda>st. case g_train C g scl (heap st) of
                        (r, h) \<Rightarrow> (st\<lparr>heap := h\<rparr>, Inr r))))))))"

fun train_loop ::
  "('h, 'x, 'b) collab \<Rightarrow> (string \<rightharpoonup> spec) \<Rightarrow> plot \<Rightarrow> scale list \<Rightarrow> addr list
     \<Rightarrow> ('h, 'x, 'b, addr list) action" where
  "train_loop C self plt [] gdefs st = (st, Inr gdefs)"
| "train_loop C self plt (scl # rest) gdefs st =
     (case train_scale C self plt scl st of
        (st', Inl e) \<Rightarrow> (st', Inl e)
      | (st', Inr None) \<Rightarrow> train_loop C self plt rest gdefs st'
      | (st', Inr (Some g)) \<Rightarrow> train_loop C self plt rest (gdefs @ [g]) st')"

definition train ::
  "('h, 'x, 'b) collab \<Rightarrow> (string \<rightharpoonup> spec) \<Rightarrow> plot \<Rightarrow> ('h, 'x, 'b, addr list) action" where
  "train C self plt = train_loop C self plt (scales plt) []"

subsection \<open>merge\<close>

text \<open>
  \<open>DataFrame.groupby\<close> on one column, iterated: one pair of key and group for every
  distinct key, the keys in ascending order, and in every group the rows with that key
  in the order of the frame.
\<close>

definition groupby :: "('k::linorder \<times> 'a) list \<Rightarrow> ('k \<times> 'a list) list" where
  "groupby rows =
     map (\<lambda>k. (k, map snd (filter (\<lambda>r. fst r = k) rows)))
       (sort (remdups (map fst rows)))"

text \<open>The inner loop of \<open>merge\<close>: \<open>gdef = gdef.merge(g)\<close> for every further member.\<close>

fun merge_group ::
  "('h, 'x, 'b) collab \<Rightarrow> addr \<Rightarrow> addr list \<Rightarrow> ('h, 'x) heap \<Rightarrow> addr \<times> ('h, 'x) heap" where
  "merge_group C gdef [] h = (gdef, h)"
| "merge_group C gdef (g # gs) h =
     (case g_merge C gdef g h of (gdef', h') \<Rightarrow> merge_group C gdef' gs h')"

text \<open>The outer loop; \<open>iloc[0]\<close> of an empty group would raise.\<close>

fun merge_loop ::
  "('h, 'x, 'b) collab \<Rightarrow> ('k \<times> addr list) list \<Rightarrow> addr list \<Rightarrow> ('h, 'x, 'b, addr list) action" where
  "merge_loop C [] gdefs st = (st, Inr gdefs)"
| "merge_loop C ((nm, grp) # rest) gdefs st =
     (case grp of
        [] \<Rightarrow> (st, Inl IndexError)
      | g # gs \<Rightarrow>
          (case merge_group C g gs (heap st) of
             (gdef, h) \<Rightarrow> merge_loop C rest (gdefs @ [gdef]) (st\<lparr>heap := h\<rparr>)))"

definition merge ::
  "('h::linorder, 'x, 'b) collab \<Rightarrow> addr list \<Rightarrow> ('h, 'x, 'b, addr list) action" where
  "merge C gdefs st =
     merge_loop C (groupby (map (\<lambda>g. (hash (heap st g), g)) gdefs)) [] st"

subsection \<open>create_geoms and draw\<close>

fun create_geoms_loop ::
  "('h, 'x, 'b) collab \<Rightarrow> plot \<Rightarrow> addr list \<Rightarrow> addr list \<Rightarrow> ('h, 'x, 'b, addr list) action" where
  "create_geoms_loop C plt [] new_gdefs st = (st, Inr new_gdefs)"
| "create_geoms_loop C plt (gdef # rest) new_gdefs st =
     (case g_create_geoms C gdef plt (heap st) of
        (None, h) \<Rightarrow> create_geoms_loop C plt rest new_gdefs (st\<lparr>heap := h\<rparr>)
      | (Some gdef', h) \<Rightarrow>
          create_geoms_loop C plt rest (new_gdefs @ [gdef']) (st\<lparr>heap := h\<rparr>))"

definition create_geoms ::
  "('h, 'x, 'b) collab \<Rightarrow> addr list \<Rightarrow> plot \<Rightarrow> ('h, 'x, 'b, addr list) action" where
  "create_geoms C gdefs plt = create_geoms_loop C plt gdefs []"

fun set_defaults_loop ::
  "('h, 'x, 'b) collab \<Rightarrow> addr list \<Rightarrow> ('h, 'x, 'b) state \<Rightarrow> ('h, 'x, 'b) state" where
  "set_defaults_loop C [] st = st"
| "set_defaults_loop C (g # gs) st =
     set_defaults_loop C gs (st\<lparr>heap := g_set_defaults C g (params st) (heap st)\<rparr>)"

fun draw_loop ::
  "('h, 'x, 'b) collab \<Rightarrow> addr list \<Rightarrow> ('h, 'x, 'b, 'b list) action" where
  "draw_loop C [] st = (st, Inr [])"
| "draw_loop C (g # gs) st =
     (case g_draw C g (params st) (heap st) of
        (b, h) \<Rightarrow>
          (case draw_loop C gs (st\<lparr>heap := h, rendered := rendered st @ [b]\<rparr>) of
             (st', Inl e) \<Rightarrow> (st', Inl e)
           | (st', Inr bs) \<Rightarrow> (st', Inr (b # bs))))"

definition draw :: "('h, 'x, 'b) collab \<Rightarrow> addr list \<Rightarrow> ('h, 'x, 'b, 'b list) action" where
  "draw C gdefs st = draw_loop C gdefs (set_defaults_loop C gdefs st)"

subsection \<open>assemble\<close>

definition order_error :: error where
  "order_error = GgplotError [[CHR 0x27] @ ''order'' @ [CHR 0x27] @ '' for a guide should be'',
                              ''between 0 and 99'']"

definition legend_box_error :: error where
  "legend_box_error =
     GgplotError [[CHR 0x27] @ ''legend_box'' @ [CHR 0x27] @ '' should be either'',
                  [CHR 0x27] @ ''vertical'' @ [CHR 0x27] @ '' or ''
                    @ [CHR 0x27] @ ''horizontal'' @ [CHR 0x27]]"

text \<open>The first loop of \<open>assemble\<close>.\<close>

fun normalize_orders :: "addr list \<Rightarrow> ('h, 'x, 'b, unit) action" where
  "normalize_orders [] st = (st, Inr ())"
| "normalize_orders (gdef # rest) st =
     (if order (heap st gdef) = 0 then normalize_orders rest (set_order gdef 100 st)
      else if \<not> (0 \<le> order (heap st gdef) \<and> order (heap st gdef) \<le> 99)
      then (st, Inl order_error)
      else normalize_orders rest st)"

text \<open>\<open>[gboxes[i] for i in idx]\<close>; the indices that \<open>argsort\<close> returns are not negative.\<close>

fun take_boxes :: "'b list \<Rightarrow> nat list \<Rightarrow> error + 'b list" where
  "take_boxes gboxes [] = Inr []"
| "take_boxes gboxes (i # rest) =
     (if i < length gboxes then
        (case take_boxes gboxes rest of
           Inl e \<Rightarrow> Inl e
         | Inr bs \<Rightarrow> Inr (gboxes ! i # bs))
      else Inl IndexError)"

definition assemble ::
  "('h, 'x, 'b) collab \<Rightarrow> 'b list \<Rightarrow> addr list \<Rightarrow> ('h, 'x, 'b, 'b offsetbox) action" where
  "assemble C gboxes gdefs =
     and_then (normalize_orders gdefs) (\<lambda>_.
     and_then (\<lambda>st. (st, Inr (map (\<lambda>gdef. order (heap st gdef)) gdefs))) (\<lambda>orders.
     and_then (\<lambda>st. (st, take_boxes gboxes (argsort C orders))) (\<lambda>gboxes'.
     and_then (get_param ''legend_box'') (\<lambda>direction0.
     and_then
       (if direction0 = PStr ''vertical'' then return VPacker
        else if direction0 = PStr ''horizontal'' then return HPacker
        else raise legend_box_error) (\<lambda>packer.
     and_then (get_param ''legend_box_just'') (\<lambda>align.
     return (packer gboxes' align 0 20)))))))"

subsection \<open>build\<close>

definition build ::
  "('h::linorder, 'x, 'b) collab \<Rightarrow> (string \<rightharpoonup> spec) \<Rightarrow> plot
     \<Rightarrow> ('h, 'x, 'b, 'b offsetbox option) action" where
  "build C self plt =
     and_then set_legend_defaults (\<lambda>_.
     and_then (train C self plt) (\<lambda>gdefs1.
     if gdefs1 = [] then return None
     else
       and_then (merge C gdefs1) (\<lambda>gdefs2.
       and_then (create_geoms C gdefs2 plt) (\<lambda>gdefs3.
       if gdefs3 = [] then return None
       else
         and_then (draw C gdefs3) (\<lambda>gboxes.
         and_then (assemble C gboxes gdefs3) (\<lambda>bigbox.
         return (Some bigbox)))))))"

section \<open>Notions used to state the properties\<close>

text \<open>The boxes that a packer was given.\<close>

fun children :: "'b offsetbox \<Rightarrow> 'b list" where
  "children (VPacker bs al pad sep) = bs"
| "children (HPacker bs al pad sep) = bs"

text \<open>
  An action preserves a component of the state, and an action never raises a given
  error.
\<close>

definition preserves :: "(('h, 'x, 'b) state \<Rightarrow> 'p) \<Rightarrow> ('h, 'x, 'b, 'a) action \<Rightarrow> bool" where
  "preserves proj m \<longleftrightarrow> (\<forall>st st' r. m st = (st', r) \<longrightarrow> proj st' = proj st)"

definition avoids :: "error \<Rightarrow> ('h, 'x, 'b, 'a) action \<Rightarrow> bool" where
  "avoids e m \<longleftrightarrow> (\<forall>st st'. m st \<noteq> (st', Inl e))"

text \<open>
  What \<open>numpy.argsort\<close> promises for every sorting kind: the result is a permutation of
  the positions of its argument, and the keys ascend along it. \<open>normalized\<close> is the
  sort key of the specification.
\<close>

definition argsort_sorts :: "(int list \<Rightarrow> nat list) \<Rightarrow> bool" where
  "argsort_sorts f \<longleftrightarrow>
     (\<forall>xs. mset (f xs) = mset [0..<length xs] \<and> sorted (map ((!) xs) (f xs)))"

definition normalized :: "int \<Rightarrow> int" where
  "normalized n = (if n = 0 then 100 else n)"

text \<open>
  The legend options as the specification describes them (section 4.1): the keys that
  the theme's dictionary holds, "set only if currently unset" for one option, and the
  five steps in their order, each using the options set before it.
\<close>

definition legend_keys :: "string set" where
  "legend_keys = {''legend_box'', ''legend_key_size'', ''legend_key_width'',
     ''legend_key_height'', ''legend_position'', ''legend_direction'', ''legend_box_just''}"

definition fill_if_unset :: "string \<Rightarrow> pval \<Rightarrow> (string \<rightharpoonup> pval) \<Rightarrow> (string \<rightharpoonup> pval)" where
  "fill_if_unset k v ps = (if ps k = Some PNone then ps(k \<mapsto> v) else ps)"

definition option_value :: "(string \<rightharpoonup> pval) \<Rightarrow> string \<Rightarrow> pval" where
  "option_value ps k = (case ps k of Some v \<Rightarrow> v | None \<Rightarrow> PNone)"

definition spec_legend_defaults :: "(string \<rightharpoonup> pval) \<Rightarrow> (string \<rightharpoonup> pval)" where
  "spec_legend_defaults ps =
     (let ps1 = fill_if_unset ''legend_box'' (PStr ''vertical'') ps;
          ps2 = fill_if_unset ''legend_key_width'' (option_value ps1 ''legend_key_size'') ps1;
          ps3 = fill_if_unset ''legend_key_height'' (option_value ps2 ''legend_key_size'') ps2;
          ps4 = fill_if_unset ''legend_position'' (PStr ''right'') ps3;
          position = option_value ps4 ''legend_position'';
          ps5 = fill_if_unset ''legend_direction''
                  (if position \<in> {PStr ''top'', PStr ''bottom''}
                   then PStr ''horizontal'' else PStr ''vertical'') ps4
      in fill_if_unset ''legend_box_just''
           (if position \<in> {PStr ''left'', PStr ''right''}
            then PStr ''left'' else PStr ''center'') ps5)"



text \<open>
  Merging as the specification words it: every group is folded from the left with the
  pairwise merge of the guides, starting from its first member, one group after the
  other in the store that the groups before it have left, and the results are collected
  in the order of the groups.
\<close>

definition fold_group ::
  "('h, 'x, 'b) collab \<Rightarrow> addr list \<Rightarrow> ('h, 'x) heap \<Rightarrow> addr \<times> ('h, 'x) heap" where
  "fold_group C grp h = foldl (\<lambda>(gdef, h') g. g_merge C gdef g h') (hd grp, h) (tl grp)"

definition fold_groups ::
  "('h, 'x, 'b) collab \<Rightarrow> ('k \<times> addr list) list \<Rightarrow> ('h, 'x) heap \<Rightarrow> addr list \<times> ('h, 'x) heap" where
  "fold_groups C groups h =
     foldl (\<lambda>(out, h') p. case fold_group C (snd p) h' of (gdef, h'') \<Rightarrow> (out @ [gdef], h''))
       ([], h) groups"

section \<open>The default sorting kind of numpy.argsort\<close>

text \<open>
  \<open>assemble\<close> calls \<open>numpy.argsort\<close> with its default kind, \<open>quicksort\<close>. numpy is a
  library and no part of the repository; what follows is the sort of an index array of
  that kind as the scalar implementation of numpy performs it (\<open>aquicksort\<close> in
  \<open>npysort/quicksort\<close>). The index array starts as \<open>0, ..., n - 1\<close>. A part of more than 17
  positions is partitioned: the median of the first, the middle and the last key is
  the pivot, it is parked at the last position but one, two scans run towards each
  other and exchange the entries at which they stop, and the pivot is put where they
  meet. A part of at most 17 positions is sorted by insertion.

  The first argument of \<open>aquicksort\<close> counts the partition steps still allowed,
  \<open>2 * floor (log2 n)\<close> at the start. numpy sorts a part for which they are used up by
  heapsort; this needs at least 26 keys and is not modelled, the part is sorted by
  insertion here, which leaves equal keys in their order. Builds of numpy that hand the
  sort to vectorised code may order equal keys in yet another way; they are not
  modelled either.
\<close>

text \<open>\<open>INTP_SWAP\<close>, on the positions of the index array.\<close>

definition swap :: "nat \<Rightarrow> nat \<Rightarrow> 'a list \<Rightarrow> 'a list" where
  "swap i j a = a[i := a ! j, j := a ! i]"

text \<open>
  The two scans of the partition, \<open>do ++pi; while (v[*pi] < vp)\<close> and
  \<open>do --pj; while (vp < v[*pj])\<close>, from the position after the step. In numpy they stop
  inside the part because of the pivot and the median; here they also stop at the ends
  of the array.
\<close>

function scan_up :: "int list \<Rightarrow> int \<Rightarrow> nat list \<Rightarrow> nat \<Rightarrow> nat" where
  "scan_up v vp a i =
     (if i < length a \<and> v ! (a ! i) < vp then scan_up v vp a (Suc i) else i)"
  by pat_completeness auto
termination
  by (relation "measure (\<lambda>(v, vp, a, i). length a - i)") auto

declare scan_up.simps [simp del]

fun scan_down :: "int list \<Rightarrow> int \<Rightarrow> nat list \<Rightarrow> nat \<Rightarrow> nat" where
  "scan_down v vp a 0 = 0"
| "scan_down v vp a (Suc j) =
     (if vp < v ! (a ! Suc j) then scan_down v vp a j else Suc j)"

text \<open>The loop \<open>for (;;)\<close> of the partition; it returns the array and the final \<open>pi\<close>.\<close>

function hoare_loop :: "int list \<Rightarrow> int \<Rightarrow> nat list \<Rightarrow> nat \<Rightarrow> nat \<Rightarrow> nat list \<times> nat" where
  "hoare_loop v vp a i j =
     (if scan_down v vp a (j - 1) \<le> scan_up v vp a (Suc i) then (a, scan_up v vp a (Suc i))
      else hoare_loop v vp (swap (scan_up v vp a (Suc i)) (scan_down v vp a (j - 1)) a)
             (scan_up v vp a (Suc i)) (scan_down v vp a (j - 1)))"
  by pat_completeness auto
termination
proof (relation "measure (\<lambda>(v, vp, a, i, j). j - i)")
  show "wf (measure (\<lambda>(v, vp, a, i, j). j - i))" by simp
next
  fix v :: "int list" and vp :: int and a :: "nat list" and i j :: nat
  assume stop: "\<not> scan_down v vp a (j - 1) \<le> scan_up v vp a (Suc i)"
  have up: "k \<le> scan_up v vp a k" for k
  proof (induction v vp a k rule: scan_up.induct)
    case (1 v vp a k)
    show ?case
    proof (cases "k < length a \<and> v ! (a ! k) < vp")
      case True
      with 1 have "Suc k \<le> scan_up v vp a (Suc k)" by simp
      with True show ?thesis by (subst scan_up.simps) auto
    next
      case False
      then show ?thesis by (subst scan_up.simps) auto
    qed
  qed
  have down: "scan_down v vp a k \<le> k" for k
    by (induction k) simp_all
  from stop up [of "Suc i"] down [of "j - 1"]
  show "((v, vp, swap (scan_up v vp a (Suc i)) (scan_down v vp a (j - 1)) a,
          scan_up v vp a (Suc i), scan_down v vp a (j - 1)), (v, vp, a, i, j))
        \<in> measure (\<lambda>(v, vp, a, i, j). j - i)"
    by simp
qed

declare hoare_loop.simps [simp del]

text \<open>\<open>if (v[*p] < v[*q]) INTP_SWAP(*p, *q)\<close>, the step of the median of three.\<close>

definition median_swap :: "int list \<Rightarrow> nat \<Rightarrow> nat \<Rightarrow> nat list \<Rightarrow> nat list" where
  "median_swap v p q a = (if v ! (a ! p) < v ! (a ! q) then swap p q a else a)"

text \<open>
  The partition of a part \<open>a\<close>, with \<open>pl\<close> the position 0 and \<open>pr\<close> the last position; it
  returns the part and the position of the pivot.
\<close>

definition partition_step :: "int list \<Rightarrow> nat list \<Rightarrow> nat list \<times> nat" where
  "partition_step v a =
     (let pr = length a - 1;
          pm = pr div 2;
          a1 = median_swap v pm 0 a;
          a2 = median_swap v pr pm a1;
          a3 = median_swap v pm 0 a2;
          vp = v ! (a3 ! pm);
          a4 = swap pm (pr - 1) a3
      in case hoare_loop v vp a4 0 (pr - 1) of
           (a5, i) \<Rightarrow> (swap i (pr - 1) a5, i))"

text \<open>
  The insertion sort of a part: the inner loop \<open>*pj-- = *pk--\<close> moves the entries with a
  greater key one position up and returns the position that is left free.
\<close>

fun shift_up :: "int list \<Rightarrow> int \<Rightarrow> nat list \<Rightarrow> nat \<Rightarrow> nat list \<times> nat" where
  "shift_up v vp a 0 = (a, 0)"
| "shift_up v vp a (Suc k) =
     (if vp < v ! (a ! k) then shift_up v vp (a[Suc k := a ! k]) k else (a, Suc k))"

definition insert_at :: "int list \<Rightarrow> nat list \<Rightarrow> nat \<Rightarrow> nat list" where
  "insert_at v a i = (case shift_up v (v ! (a ! i)) a i of (a', j) \<Rightarrow> a'[j := a ! i])"

definition insertion_sort :: "int list \<Rightarrow> nat list \<Rightarrow> nat list" where
  "insertion_sort v a = foldl (insert_at v) a [1..<length a]"

text \<open>
  The sort of a part. The two parts beside the pivot do not overlap, so the order in
  which numpy works them off (the smaller first, the other from a stack) does not
  matter.
\<close>

fun aquicksort :: "nat \<Rightarrow> int list \<Rightarrow> nat list \<Rightarrow> nat list" where
  "aquicksort 0 v a = insertion_sort v a"
| "aquicksort (Suc d) v a =
     (if 16 < length a - 1 then
        (case partition_step v a of
           (a', i) \<Rightarrow> aquicksort d v (take i a') @ [a' ! i] @ aquicksort d v (drop (Suc i) a'))
      else insertion_sort v a)"

fun npy_get_msb :: "nat \<Rightarrow> nat" where
  "npy_get_msb n = (if n < 2 then 0 else Suc (npy_get_msb (n div 2)))"

declare npy_get_msb.simps [simp del]

definition quicksort_argsort :: "int list \<Rightarrow> nat list" where
  "quicksort_argsort xs = aquicksort (2 * npy_get_msb (length xs)) xs [0..<length xs]"

section \<open>Example inputs\<close>

text \<open>
  The inputs at which the theorems below are instantiated. The store \<open>heap_ex\<close> has a
  guide object at every address: the object at 0 has the order 0, the one at 2 the
  order 100, the one at 4 the order -1 and all others the order 5; the hash of an
  object is the parity of its address. The guide methods of \<open>collab_ex\<close> change nothing:
  \<open>train\<close> and \<open>create_geoms\<close> return the guide, \<open>merge\<close> returns its first argument, and
  the box that \<open>draw\<close> returns is the address of the guide. The registry has the one
  entry \<open>guide_legend\<close> and fails on every other key as a Python mapping does.
  \<open>stable_argsort\<close> sorts the positions by their keys and keeps equal keys in their
  order. The merge of \<open>collab_merging_ex\<close> adds the order of its second guide to the order
  of the first and returns the first.
\<close>

definition kwargs_ex :: "string \<rightharpoonup> spec" where
  "kwargs_ex = [''colour'' \<mapsto> SStr ''legend'', ''size'' \<mapsto> SNone, ''x'' \<mapsto> SFalse]"

definition stable_argsort :: "int list \<Rightarrow> nat list" where
  "stable_argsort xs = sort_key (\<lambda>i. xs ! i) [0..<length xs]"

definition heap_ex :: "(nat, unit) heap" where
  "heap_ex a =
     \<lparr>class_name = ''guide_legend'', available_aes = AvailAny, title = Waive,
      direction = PNone,
      order = (if a = 0 then 0 else if a = 2 then 100 else if a = 4 then - 1 else 5),
      hash = a mod 2\<rparr>"

definition params_ex :: "string \<rightharpoonup> pval" where
  "params_ex =
     [''legend_box'' \<mapsto> PStr ''horizontal'', ''legend_key_size'' \<mapsto> PNum 18,
      ''legend_key_width'' \<mapsto> PNone, ''legend_key_height'' \<mapsto> PNum 10,
      ''legend_position'' \<mapsto> PStr ''bottom'', ''legend_direction'' \<mapsto> PNone,
      ''legend_box_just'' \<mapsto> PNone]"

definition state_ex :: "(nat, unit, nat) state" where
  "state_ex = \<lparr>heap = heap_ex, params = params_ex, rendered = []\<rparr>"

definition registry_ex :: "string \<Rightarrow> (nat, unit) heap \<Rightarrow> (error + spec) \<times> (nat, unit) heap" where
  "registry_ex k h =
     (if k = ''guide_legend'' then (Inr (SGuide 1), h) else (Inl (KeyError k), h))"

definition collab_ex :: "(int list \<Rightarrow> nat list) \<Rightarrow> (nat, unit, nat) collab" where
  "collab_ex srt =
     \<lparr>registry = registry_ex,
      g_train = (\<lambda>a scl h. (Some a, h)),
      g_merge = (\<lambda>a b h. (a, h)),
      g_create_geoms = (\<lambda>a plt h. (Some a, h)),
      g_set_defaults = (\<lambda>a ps h. h),
      g_draw = (\<lambda>a ps h. (a, h)),
      argsort = srt\<rparr>"

definition plot_ex :: "spec \<Rightarrow> plot" where
  "plot_ex g =
     \<lparr>scales = [\<lparr>aesthetics = [''color''], guide = g, name = Some ''cyl''\<rparr>],
      labels = Map.empty\<rparr>"

definition assembled_ex :: "(nat, unit, nat) state \<times> (error + nat offsetbox)" where
  "assembled_ex = assemble (collab_ex stable_argsort) [10, 11] [0, 1] state_ex"

definition built_ex :: "(nat, unit, nat) state \<times> (error + nat offsetbox option)" where
  "built_ex = build (collab_ex stable_argsort) Map.empty (plot_ex (SGuide 0)) state_ex"


definition plot_empty_ex :: plot where
  "plot_empty_ex = \<lparr>scales = [], labels = Map.empty\<rparr>"


definition groups_ex :: "(nat \<times> addr list) list" where
  "groups_ex = [(0, [0]), (1, [1, 3])]"

definition collab_merging_ex :: "(nat, unit, nat) collab" where
  "collab_merging_ex =
     (collab_ex stable_argsort)
       \<lparr>g_merge := (\<lambda>a b h. (a, h(a := (h a)\<lparr>order := order (h a) + order (h b)\<rparr>)))\<rparr>"

section \<open>Properties\<close>

subsection \<open>Construction of the collection\<close>

text \<open>
  C4. The constructor never fails (it is a total function to dictionaries); a key
  outside the six recognized aesthetics is absent from the collection it builds; the
  value given for \<open>colour\<close> is stored under \<open>color\<close>; and every other recognized key
  keeps the value it was given.
\<close>

theorem guides_init_keys:
  "(\<forall>k. k \<notin> aes_names \<longrightarrow> guides_init kwargs k = None)
   \<and> (\<forall>v. kwargs ''colour'' = Some v \<longrightarrow> guides_init kwargs ''color'' = Some v)
   \<and> (\<forall>k \<in> aes_names. k \<noteq> ''color'' \<or> kwargs ''colour'' = None
         \<longrightarrow> guides_init kwargs k = kwargs k)"
  by (auto simp: guides_init_def aes_names_def restrict_map_def split: option.splits)

theorem guides_init_keys_witness:
  "''x'' \<notin> aes_names \<and> guides_init kwargs_ex ''x'' = None
   \<and> kwargs_ex ''colour'' = Some (SStr ''legend'')
   \<and> guides_init kwargs_ex ''color'' = Some (SStr ''legend'')
   \<and> ''size'' \<in> aes_names \<and> guides_init kwargs_ex ''size'' = Some SNone"
proof -
  have a: "''x'' \<notin> aes_names" "''size'' \<in> aes_names"
    by (simp_all add: aes_names_def)
  have b: "kwargs_ex ''colour'' = Some (SStr ''legend'')" "kwargs_ex ''size'' = Some SNone"
    by (simp_all add: kwargs_ex_def)
  have c: "''size'' \<noteq> ''color''" by simp
  from guides_init_keys [of kwargs_ex] a b c show ?thesis by metis
qed

subsection \<open>Facts about the stages of build\<close>

text \<open>The loop of \<open>assemble\<close> over the orders.\<close>

lemma set_order_simps [simp]:
  "params (set_order a n st) = params st"
  "rendered (set_order a n st) = rendered st"
  "heap (set_order a n st) = (heap st)(a := (heap st a)\<lparr>order := n\<rparr>)"
  by (simp_all add: set_order_def)

lemma normalize_orders_frame:
  "normalize_orders gdefs st = (st', r) \<Longrightarrow>
     params st' = params st \<and> rendered st' = rendered st \<and> (\<forall>e. r = Inl e \<longrightarrow> e = order_error)"
  by (induction gdefs arbitrary: st) (auto split: if_splits)

lemma normalize_orders_success:
  "normalize_orders gdefs st = (st', Inr u) \<Longrightarrow>
     heap st' = (\<lambda>a. if a \<in> set gdefs \<and> order (heap st a) = 0
                      then (heap st a)\<lparr>order := 100\<rparr> else heap st a)
     \<and> (\<forall>a \<in> set gdefs. 0 \<le> order (heap st a) \<and> order (heap st a) \<le> 99)"
proof (induction gdefs arbitrary: st)
  case Nil
  then show ?case by auto
next
  case (Cons g rest)
  show ?case
  proof (cases "order (heap st g) = 0")
    case True
    with Cons.prems have "normalize_orders rest (set_order g 100 st) = (st', Inr u)"
      by simp
    from Cons.IH [OF this]
    have A: "heap st' = (\<lambda>a. if a \<in> set rest \<and> order (heap (set_order g 100 st) a) = 0
                      then (heap (set_order g 100 st) a)\<lparr>order := 100\<rparr>
                      else heap (set_order g 100 st) a)"
      and B: "\<forall>a \<in> set rest. 0 \<le> order (heap (set_order g 100 st) a)
                 \<and> order (heap (set_order g 100 st) a) \<le> 99"
      by blast+
    have notin: "g \<notin> set rest"
    proof
      assume "g \<in> set rest"
      with B have "order (heap (set_order g 100 st) g) \<le> 99" by blast
      then show False by simp
    qed
    have "heap st' = (\<lambda>a. if a \<in> set (g # rest) \<and> order (heap st a) = 0
                      then (heap st a)\<lparr>order := 100\<rparr> else heap st a)"
      unfolding A using notin True by (auto simp: fun_eq_iff)
    moreover have "\<forall>a \<in> set (g # rest). 0 \<le> order (heap st a) \<and> order (heap st a) \<le> 99"
    proof
      fix a assume "a \<in> set (g # rest)"
      show "0 \<le> order (heap st a) \<and> order (heap st a) \<le> 99"
      proof (cases "a = g")
        case True
        with \<open>order (heap st g) = 0\<close> show ?thesis by simp
      next
        case False
        with \<open>a \<in> set (g # rest)\<close> have "a \<in> set rest" by simp
        with B False show ?thesis by auto
      qed
    qed
    ultimately show ?thesis by blast
  next
    case False
    with Cons.prems have ok: "0 \<le> order (heap st g) \<and> order (heap st g) \<le> 99"
      and "normalize_orders rest st = (st', Inr u)"
      by (auto split: if_splits)
    from Cons.IH [OF this(2)] ok False show ?thesis
      by (auto simp: fun_eq_iff)
  qed
qed


lemma normalize_orders_error_position:
  "normalize_orders gdefs st = (st', Inl e) \<Longrightarrow>
     \<exists>i < length gdefs.
        normalize_orders (take i gdefs) st = (st', Inr ())
        \<and> \<not> (0 \<le> order (heap st' (gdefs ! i)) \<and> order (heap st' (gdefs ! i)) \<le> 99)"
proof (induction gdefs arbitrary: st)
  case Nil
  then show ?case by simp
next
  case (Cons g rest)
  show ?case
  proof (cases "order (heap st g) = 0")
    case True
    with Cons.prems have "normalize_orders rest (set_order g 100 st) = (st', Inl e)"
      by simp
    from Cons.IH [OF this] obtain i where i: "i < length rest"
      "normalize_orders (take i rest) (set_order g 100 st) = (st', Inr ())"
      "\<not> (0 \<le> order (heap st' (rest ! i)) \<and> order (heap st' (rest ! i)) \<le> 99)"
      by blast
    with True have "Suc i < length (g # rest)
        \<and> normalize_orders (take (Suc i) (g # rest)) st = (st', Inr ())
        \<and> \<not> (0 \<le> order (heap st' ((g # rest) ! Suc i)) \<and> order (heap st' ((g # rest) ! Suc i)) \<le> 99)"
      by simp
    then show ?thesis by blast
  next
    case nz: False
    show ?thesis
    proof (cases "0 \<le> order (heap st g) \<and> order (heap st g) \<le> 99")
      case True
      with nz Cons.prems have "normalize_orders rest st = (st', Inl e)" by simp
      from Cons.IH [OF this] obtain i where i: "i < length rest"
        "normalize_orders (take i rest) st = (st', Inr ())"
        "\<not> (0 \<le> order (heap st' (rest ! i)) \<and> order (heap st' (rest ! i)) \<le> 99)"
        by blast
      with True nz have "Suc i < length (g # rest)
          \<and> normalize_orders (take (Suc i) (g # rest)) st = (st', Inr ())
          \<and> \<not> (0 \<le> order (heap st' ((g # rest) ! Suc i)) \<and> order (heap st' ((g # rest) ! Suc i)) \<le> 99)"
        by simp
      then show ?thesis by blast
    next
      case False
      with nz Cons.prems have "st' = st" by simp
      with False have "0 < length (g # rest)
          \<and> normalize_orders (take 0 (g # rest)) st = (st', Inr ())
          \<and> \<not> (0 \<le> order (heap st' ((g # rest) ! 0)) \<and> order (heap st' ((g # rest) ! 0)) \<le> 99)"
        by simp
      then show ?thesis by blast
    qed
  qed
qed

text \<open>Sequencing, and the outcomes of \<open>assemble\<close>.\<close>

lemma and_then_Inl:
  "and_then m f st = (st', Inl e) \<longleftrightarrow>
     m st = (st', Inl e) \<or> (\<exists>st1 x. m st = (st1, Inr x) \<and> f x st1 = (st', Inl e))"
  by (auto simp: and_then_def split: prod.splits sum.splits)

lemma and_then_Inr:
  "and_then m f st = (st', Inr y) \<longleftrightarrow>
     (\<exists>st1 x. m st = (st1, Inr x) \<and> f x st1 = (st', Inr y))"
  by (auto simp: and_then_def split: prod.splits sum.splits)

lemma get_param_eq:
  "get_param k st = (st', r) \<longleftrightarrow>
     st' = st \<and> (case params st k of None \<Rightarrow> r = Inl (KeyError k) | Some v \<Rightarrow> r = Inr v)"
  by (auto simp: get_param_def split: option.splits)

lemma take_boxes_Inl: "take_boxes gboxes idx = Inl e \<Longrightarrow> e = IndexError"
  by (induction idx) (auto split: if_splits sum.splits)

lemma take_boxes_Inr:
  "take_boxes gboxes idx = Inr bs \<Longrightarrow>
     bs = map ((!) gboxes) idx \<and> (\<forall>i \<in> set idx. i < length gboxes)"
  by (induction idx arbitrary: bs) (auto split: if_splits sum.splits)

lemma order_error_neq [simp]:
  "order_error \<noteq> legend_box_error" "order_error \<noteq> IndexError" "order_error \<noteq> KeyError k"
  "legend_box_error \<noteq> order_error" "IndexError \<noteq> order_error" "KeyError k \<noteq> order_error"
  by (simp_all add: order_error_def legend_box_error_def)

lemma assemble_order_error:
  assumes "assemble C gboxes gdefs st = (st', Inl order_error)"
  shows "normalize_orders gdefs st = (st', Inl order_error)"
  using assms
  by (auto simp: assemble_def and_then_Inl get_param_eq return_def raise_def
           dest: take_boxes_Inl split: option.splits if_splits)

lemma assemble_success:
  assumes "assemble C gboxes gdefs st = (st', Inr box)"
  shows "normalize_orders gdefs st = (st', Inr ())
         \<and> take_boxes gboxes (argsort C (map (\<lambda>g. order (heap st' g)) gdefs)) = Inr (children box)"
  using assms
  by (auto simp: assemble_def and_then_Inr get_param_eq return_def raise_def
           split: option.splits if_splits)


text \<open>
  Which parts of the state an action leaves alone, and that the error about the order
  comes from nowhere but \<open>assemble\<close>.
\<close>

lemma preservesD: "preserves proj m \<Longrightarrow> m st = (st', r) \<Longrightarrow> proj st' = proj st"
  by (auto simp: preserves_def)


lemma preserves_and_then [intro!]:
  "preserves proj m \<Longrightarrow> (\<And>x. preserves proj (f x)) \<Longrightarrow> preserves proj (and_then m f)"
  unfolding preserves_def and_then_def
  by (auto split: prod.splits sum.splits)


lemma preserves_return [intro!, simp]: "preserves proj (return x)"
  by (simp add: preserves_def return_def)

lemma preserves_raise [intro!, simp]: "preserves proj (raise e)"
  by (simp add: preserves_def raise_def)

lemma avoids_return [intro!, simp]: "avoids e (return x)"
  by (simp add: avoids_def return_def)

lemma avoids_raise [simp]: "avoids e (raise e') \<longleftrightarrow> e' \<noteq> e"
  by (auto simp: avoids_def raise_def)

lemma preserves_if [intro!]:
  "(b \<Longrightarrow> preserves proj m) \<Longrightarrow> (\<not> b \<Longrightarrow> preserves proj n) \<Longrightarrow> preserves proj (if b then m else n)"
  by simp


lemma preserves_get_param [intro!, simp]: "preserves proj (get_param k)"
  by (auto simp: preserves_def get_param_def split: option.splits)

lemma avoids_get_param [intro!, simp]: "avoids order_error (get_param k)"
  by (auto simp: avoids_def get_param_def split: option.splits)

lemma preserves_set_if_none [intro!, simp]:
  "preserves heap (set_if_none k v)" "preserves rendered (set_if_none k v)"
  by (auto simp: preserves_def set_if_none_def split: option.splits if_splits)

lemma avoids_set_if_none [intro!, simp]: "avoids order_error (set_if_none k v)"
  by (auto simp: avoids_def set_if_none_def split: option.splits if_splits)


lemma preserves_get_guide [intro!, simp]: "preserves proj (get_guide a)"
  by (simp add: preserves_def get_guide_def)

lemma avoids_get_guide [intro!, simp]: "avoids e (get_guide a)"
  by (simp add: avoids_def get_guide_def)

lemma preserves_set_title [intro!, simp]:
  "preserves params (set_title a t)" "preserves rendered (set_title a t)"
  by (auto simp: preserves_def set_title_def)

lemma avoids_set_title [intro!, simp]: "avoids e (set_title a t)"
  by (simp add: avoids_def set_title_def)

lemma preserves_set_direction [intro!, simp]:
  "preserves params (set_direction a d)" "preserves rendered (set_direction a d)"
  by (auto simp: preserves_def set_direction_def)

lemma avoids_set_direction [intro!, simp]: "avoids e (set_direction a d)"
  by (simp add: avoids_def set_direction_def)

lemma preserves_validate [intro!, simp]:
  "preserves params (validate C g)" "preserves rendered (validate C g)"
  by (auto simp: preserves_def validate_def split: prod.splits sum.splits spec.splits)


lemma preserves_case_option [intro!]:
  "(x = None \<Longrightarrow> preserves proj m) \<Longrightarrow> (\<And>y. x = Some y \<Longrightarrow> preserves proj (f y))
     \<Longrightarrow> preserves proj (case x of None \<Rightarrow> m | Some y \<Rightarrow> f y)"
  by (cases x) simp_all

lemma avoids_case_option [intro!]:
  "(x = None \<Longrightarrow> avoids e m) \<Longrightarrow> (\<And>y. x = Some y \<Longrightarrow> avoids e (f y))
     \<Longrightarrow> avoids e (case x of None \<Rightarrow> m | Some y \<Rightarrow> f y)"
  by (cases x) simp_all

lemma preserves_g_train [intro!, simp]:
  "preserves params (\<lambda>st. case g_train C g scl (heap st) of (r, h) \<Rightarrow> (st\<lparr>heap := h\<rparr>, Inr r))"
  "preserves rendered (\<lambda>st. case g_train C g scl (heap st) of (r, h) \<Rightarrow> (st\<lparr>heap := h\<rparr>, Inr r))"
  by (auto simp: preserves_def split: prod.splits)

lemma avoids_g_train [intro!, simp]:
  "avoids e (\<lambda>st. case g_train C g scl (heap st) of (r, h) \<Rightarrow> (st\<lparr>heap := h\<rparr>, Inr r))"
  by (auto simp: avoids_def split: prod.splits)

lemma order_error_single [simp]:
  "GgplotError [m] \<noteq> order_error" "order_error \<noteq> GgplotError [m]"
  by (simp_all add: order_error_def)

lemma preserves_train_scale [intro!, simp]:
  "preserves params (train_scale C self plt scl)" "preserves rendered (train_scale C self plt scl)"
  unfolding train_scale_def Let_def
  by (auto split: list.splits)


lemma train_loop_frame:
  "train_loop C self plt scs gdefs st = (st', r) \<Longrightarrow>
     params st' = params st \<and> rendered st' = rendered st"
proof (induction scs arbitrary: gdefs st)
  case Nil
  then show ?case by simp
next
  case (Cons scl rest)
  obtain st1 r1 where ts: "train_scale C self plt scl st = (st1, r1)"
    by (cases "train_scale C self plt scl st")
  then have fr: "params st1 = params st" "rendered st1 = rendered st"
    using preservesD [OF preserves_train_scale(1) ts] preservesD [OF preserves_train_scale(2) ts]
    by simp_all
  from Cons.prems ts show ?case
    using Cons.IH fr by (auto split: sum.splits option.splits)
qed


text \<open>\<open>merge\<close>, \<open>create_geoms\<close> and \<open>draw\<close> do not raise.\<close>

lemma groupby_keys: "map fst (groupby rows) = sort (remdups (map fst rows))"
  by (simp add: groupby_def comp_def)

lemma groupby_member:
  "(k, grp) \<in> set (groupby rows) \<Longrightarrow>
     k \<in> fst ` set rows \<and> grp = map snd (filter (\<lambda>r. fst r = k) rows) \<and> grp \<noteq> []"
  by (fastforce simp: groupby_def filter_empty_conv)

lemma merge_loop_frame:
  "merge_loop C groups acc st = (st', r) \<Longrightarrow>
     params st' = params st \<and> rendered st' = rendered st"
proof (induction groups arbitrary: acc st)
  case Nil
  then show ?case by simp
next
  case (Cons p rest)
  obtain k grp where p: "p = (k, grp)" by (cases p)
  show ?case
  proof (cases grp)
    case Nil
    with Cons.prems p show ?thesis by simp
  next
    case (Cons g gs)
    obtain gdef h where mg: "merge_group C g gs (heap st) = (gdef, h)"
      by (cases "merge_group C g gs (heap st)")
    with Cons.prems p Cons
    have "merge_loop C rest (acc @ [gdef]) (st\<lparr>heap := h\<rparr>) = (st', r)" by simp
    from Cons.IH [OF this] show ?thesis by simp
  qed
qed



lemma merge_frame:
  "merge C gdefs st = (st', r) \<Longrightarrow> params st' = params st \<and> rendered st' = rendered st"
  unfolding merge_def by (rule merge_loop_frame)

lemma create_geoms_loop_total:
  "\<exists>st' out. create_geoms_loop C plt gdefs acc st = (st', Inr out)
      \<and> params st' = params st \<and> rendered st' = rendered st"
proof (induction gdefs arbitrary: acc st)
  case Nil
  then show ?case by simp
next
  case (Cons g rest)
  obtain r h where cg: "g_create_geoms C g plt (heap st) = (r, h)"
    by (cases "g_create_geoms C g plt (heap st)")
  show ?case
  proof (cases r)
    case None
    with cg Cons.IH [of acc "st\<lparr>heap := h\<rparr>"] show ?thesis by simp
  next
    case (Some g')
    with cg Cons.IH [of "acc @ [g']" "st\<lparr>heap := h\<rparr>"] show ?thesis by simp
  qed
qed

lemma create_geoms_total:
  "\<exists>st' out. create_geoms C gdefs plt st = (st', Inr out)
      \<and> params st' = params st \<and> rendered st' = rendered st"
  unfolding create_geoms_def by (rule create_geoms_loop_total)

lemma set_defaults_loop_frame:
  "params (set_defaults_loop C gdefs st) = params st
   \<and> rendered (set_defaults_loop C gdefs st) = rendered st"
  by (induction gdefs arbitrary: st) auto

lemma draw_loop_total:
  "\<exists>st' bs. draw_loop C gdefs st = (st', Inr bs) \<and> length bs = length gdefs
      \<and> rendered st' = rendered st @ bs \<and> params st' = params st"
proof (induction gdefs arbitrary: st)
  case Nil
  then show ?case by simp
next
  case (Cons g rest)
  obtain b h where d: "g_draw C g (params st) (heap st) = (b, h)"
    by (cases "g_draw C g (params st) (heap st)")
  from Cons.IH [of "st\<lparr>heap := h, rendered := rendered st @ [b]\<rparr>"]
  obtain st' bs where
    "draw_loop C rest (st\<lparr>heap := h, rendered := rendered st @ [b]\<rparr>) = (st', Inr bs)"
    "length bs = length rest" "rendered st' = (rendered st @ [b]) @ bs" "params st' = params st"
    by auto
  with d show ?case by simp
qed

lemma draw_total:
  "\<exists>st' bs. draw C gdefs st = (st', Inr bs) \<and> length bs = length gdefs
      \<and> rendered st' = rendered st @ bs \<and> params st' = params st"
  using draw_loop_total [of C gdefs "set_defaults_loop C gdefs st"]
  by (simp add: draw_def set_defaults_loop_frame)

lemma assemble_frame:
  "assemble C gboxes gdefs st = (st', r) \<Longrightarrow>
     params st' = params st \<and> rendered st' = rendered st"
  by (auto simp: assemble_def and_then_def get_param_def return_def raise_def
           dest: normalize_orders_frame split: prod.splits sum.splits option.splits if_splits)



subsection \<open>Errors of assemble\<close>

text \<open>
  C10. \<open>assemble\<close> is not atomic. When it raises the error about an order out of range,
  there is a position \<open>i\<close> in the list of guide definitions such that the loop has passed
  the positions before \<open>i\<close> and the definition at \<open>i\<close> has an order outside 0..99; the
  state that the error leaves behind is the state of the loop at that moment, and in it
  every definition at a position before \<open>i\<close> whose order was 0 has the order 100.
\<close>

theorem assemble_not_atomic:
  assumes "assemble C gboxes gdefs st = (st', Inl order_error)"
  shows "\<exists>i < length gdefs.
           normalize_orders (take i gdefs) st = (st', Inr ())
           \<and> \<not> (0 \<le> order (heap st' (gdefs ! i)) \<and> order (heap st' (gdefs ! i)) \<le> 99)
           \<and> (\<forall>j < i. order (heap st (gdefs ! j)) = 0 \<longrightarrow> order (heap st' (gdefs ! j)) = 100)"
proof -
  from assemble_order_error [OF assms]
  have "normalize_orders gdefs st = (st', Inl order_error)" .
  from normalize_orders_error_position [OF this]
  obtain i where i: "i < length gdefs" "normalize_orders (take i gdefs) st = (st', Inr ())"
    "\<not> (0 \<le> order (heap st' (gdefs ! i)) \<and> order (heap st' (gdefs ! i)) \<le> 99)"
    by blast
  from normalize_orders_success [OF i(2)]
  have h: "heap st' = (\<lambda>a. if a \<in> set (take i gdefs) \<and> order (heap st a) = 0
                      then (heap st a)\<lparr>order := 100\<rparr> else heap st a)"
    by blast
  have "\<forall>j < i. order (heap st (gdefs ! j)) = 0 \<longrightarrow> order (heap st' (gdefs ! j)) = 100"
  proof (intro allI impI)
    fix j assume j: "j < i" and z: "order (heap st (gdefs ! j)) = 0"
    from j i(1) have "j < length (take i gdefs)" by simp
    then have "take i gdefs ! j \<in> set (take i gdefs)" by (rule nth_mem)
    with j have "gdefs ! j \<in> set (take i gdefs)" by simp
    with z have "heap st' (gdefs ! j) = (heap st (gdefs ! j))\<lparr>order := 100\<rparr>"
      unfolding h by simp
    then show "order (heap st' (gdefs ! j)) = 100" by simp
  qed
  with i show ?thesis by (intro exI [of _ i]) simp
qed

theorem assemble_not_atomic_witness:
  "assemble (collab_ex stable_argsort) [10, 11, 12] [0, 1, 2] state_ex
     = (fst (assemble (collab_ex stable_argsort) [10, 11, 12] [0, 1, 2] state_ex), Inl order_error)
   \<and> (\<exists>i < length [0, 1, 2 :: nat].
         normalize_orders (take i [0, 1, 2]) state_ex
           = (fst (assemble (collab_ex stable_argsort) [10, 11, 12] [0, 1, 2] state_ex), Inr ())
         \<and> \<not> (0 \<le> order (heap (fst (assemble (collab_ex stable_argsort) [10, 11, 12] [0, 1, 2] state_ex)) ([0, 1, 2] ! i))
              \<and> order (heap (fst (assemble (collab_ex stable_argsort) [10, 11, 12] [0, 1, 2] state_ex)) ([0, 1, 2] ! i)) \<le> 99)
         \<and> (\<forall>j < i. order (heap state_ex ([0, 1, 2] ! j)) = 0 \<longrightarrow>
               order (heap (fst (assemble (collab_ex stable_argsort) [10, 11, 12] [0, 1, 2] state_ex)) ([0, 1, 2] ! j)) = 100))"
proof -
  have s: "snd (assemble (collab_ex stable_argsort) [10, 11, 12] [0, 1, 2] state_ex) = Inl order_error"
    by code_simp
  have h: "assemble (collab_ex stable_argsort) [10, 11, 12] [0, 1, 2] state_ex
     = (fst (assemble (collab_ex stable_argsort) [10, 11, 12] [0, 1, 2] state_ex), Inl order_error)"
    by (rule prod_eqI, simp only: fst_conv, simp only: snd_conv s)
  from assemble_not_atomic [OF h] h show ?thesis by blast
qed

lemma and_then_InrE:
  assumes "and_then m f st = (st', Inr y)"
  obtains st1 x where "m st = (st1, Inr x)" "f x st1 = (st', Inr y)"
  using assms by (auto simp: and_then_def split: prod.splits sum.splits)

lemma build_success_assemble:
  assumes b: "build C self plt st = (st', Inr (Some box))"
  shows "\<exists>gdefs gboxes st5. gdefs \<noteq> [] \<and> assemble C gboxes gdefs st5 = (st', Inr box)"
  using b unfolding build_def
proof (cases rule: and_then_InrE)
  case (1 st1 x1)
  from 1(2) show ?thesis
  proof (cases rule: and_then_InrE)
    case (1 st2 gdefs1)
    then have ne1: "gdefs1 \<noteq> []" by (auto simp: return_def)
    with 1(2) have "and_then (merge C gdefs1) (\<lambda>gdefs2.
       and_then (create_geoms C gdefs2 plt) (\<lambda>gdefs3.
       if gdefs3 = [] then return None
       else
         and_then (draw C gdefs3) (\<lambda>gboxes.
         and_then (assemble C gboxes gdefs3) (\<lambda>bigbox.
         return (Some bigbox))))) st2 = (st', Inr (Some box))"
      by simp
    then show ?thesis
    proof (cases rule: and_then_InrE)
      case (1 st3 gdefs2)
      from 1(2) show ?thesis
      proof (cases rule: and_then_InrE)
        case (1 st4 gdefs3)
        then have ne3: "gdefs3 \<noteq> []" by (auto simp: return_def)
        with 1(2) have "and_then (draw C gdefs3) (\<lambda>gboxes.
           and_then (assemble C gboxes gdefs3) (\<lambda>bigbox.
           return (Some bigbox))) st4 = (st', Inr (Some box))"
          by simp
        then show ?thesis
        proof (cases rule: and_then_InrE)
          case (1 st5 bs)
          from 1(2) have "assemble C bs gdefs3 st5 = (st', Inr box)"
            by (cases rule: and_then_InrE) (simp add: return_def)
          with ne3 show ?thesis by blast
        qed
      qed
    qed
  qed
qed

subsection \<open>What assemble does to the order attribute\<close>

text \<open>
  C1 (as amended). The normalisation of the order is written into the guide objects and
  stays there. When \<open>assemble\<close> returns a box, the guide objects are as before except
  that every listed definition whose order was 0 has the order 100. When \<open>build\<close>
  returns a box, the state it leaves is the state left by its call of \<open>assemble\<close>: every
  definition given to that call has an order from 1 to 100 afterwards, and 100 where it
  was 0.
\<close>

theorem assemble_persists_order:
  "(assemble C gboxes gdefs st = (st', Inr box) \<longrightarrow>
      heap st' = (\<lambda>a. if a \<in> set gdefs \<and> order (heap st a) = 0
                       then (heap st a)\<lparr>order := 100\<rparr> else heap st a))
   \<and> (build C self plt st0 = (st1, Inr (Some box1)) \<longrightarrow>
        (\<exists>gdefs1 gboxes1 st5. gdefs1 \<noteq> [] \<and> assemble C gboxes1 gdefs1 st5 = (st1, Inr box1)
           \<and> (\<forall>a \<in> set gdefs1. 1 \<le> order (heap st1 a) \<and> order (heap st1 a) \<le> 100
                 \<and> (order (heap st5 a) = 0 \<longrightarrow> order (heap st1 a) = 100))))"
proof (intro conjI impI)
  assume "assemble C gboxes gdefs st = (st', Inr box)"
  from assemble_success [OF this] have "normalize_orders gdefs st = (st', Inr ())" by simp
  from normalize_orders_success [OF this]
  show "heap st' = (\<lambda>a. if a \<in> set gdefs \<and> order (heap st a) = 0
                       then (heap st a)\<lparr>order := 100\<rparr> else heap st a)"
    by simp
next
  assume "build C self plt st0 = (st1, Inr (Some box1))"
  from build_success_assemble [OF this] obtain gdefs1 gboxes1 st5
    where g: "gdefs1 \<noteq> []" and a: "assemble C gboxes1 gdefs1 st5 = (st1, Inr box1)"
    by blast
  from assemble_success [OF a] have "normalize_orders gdefs1 st5 = (st1, Inr ())" by simp
  from normalize_orders_success [OF this]
  have h: "heap st1 = (\<lambda>a. if a \<in> set gdefs1 \<and> order (heap st5 a) = 0
                       then (heap st5 a)\<lparr>order := 100\<rparr> else heap st5 a)"
    and r: "\<forall>a \<in> set gdefs1. 0 \<le> order (heap st5 a) \<and> order (heap st5 a) \<le> 99"
    by simp_all
  have "\<forall>a \<in> set gdefs1. 1 \<le> order (heap st1 a) \<and> order (heap st1 a) \<le> 100
                 \<and> (order (heap st5 a) = 0 \<longrightarrow> order (heap st1 a) = 100)"
  proof
    fix a assume "a \<in> set gdefs1"
    with r have "0 \<le> order (heap st5 a) \<and> order (heap st5 a) \<le> 99" by blast
    with \<open>a \<in> set gdefs1\<close> show "1 \<le> order (heap st1 a) \<and> order (heap st1 a) \<le> 100
                 \<and> (order (heap st5 a) = 0 \<longrightarrow> order (heap st1 a) = 100)"
      unfolding h by auto
  qed
  with g a show "\<exists>gdefs1 gboxes1 st5. gdefs1 \<noteq> [] \<and> assemble C gboxes1 gdefs1 st5 = (st1, Inr box1)
           \<and> (\<forall>a \<in> set gdefs1. 1 \<le> order (heap st1 a) \<and> order (heap st1 a) \<le> 100
                 \<and> (order (heap st5 a) = 0 \<longrightarrow> order (heap st1 a) = 100))"
    by blast
qed

text \<open>
  The claim C1 as it was stated fails: a guide object with order 0 has the order 100
  after a \<open>build\<close> that returned a box.
\<close>

theorem build_mutates_order:
  "order (heap state_ex 0) = 0
   \<and> snd (build (collab_ex stable_argsort) Map.empty (plot_ex (SGuide 0)) state_ex)
       = Inr (Some (HPacker [0] (PStr ''center'') 0 20))
   \<and> order (heap (fst (build (collab_ex stable_argsort) Map.empty (plot_ex (SGuide 0)) state_ex)) 0)
       = 100"
  by code_simp

theorem assemble_persists_order_witness:
  "assembled_ex = (fst assembled_ex, Inr (HPacker [11, 10] PNone 0 20))
   \<and> heap (fst assembled_ex)
       = (\<lambda>a. if a \<in> set [0, 1] \<and> order (heap state_ex a) = 0
              then (heap state_ex a)\<lparr>order := 100\<rparr> else heap state_ex a)
   \<and> built_ex = (fst built_ex, Inr (Some (HPacker [0] (PStr ''center'') 0 20)))
   \<and> (\<exists>gdefs1 gboxes1 st5. gdefs1 \<noteq> []
        \<and> assemble (collab_ex stable_argsort) gboxes1 gdefs1 st5
             = (fst built_ex, Inr (HPacker [0] (PStr ''center'') 0 20))
        \<and> (\<forall>a \<in> set gdefs1. 1 \<le> order (heap (fst built_ex) a)
              \<and> order (heap (fst built_ex) a) \<le> 100
              \<and> (order (heap st5 a) = 0 \<longrightarrow> order (heap (fst built_ex) a) = 100)))"
proof -
  have s1: "snd assembled_ex = Inr (HPacker [11, 10] PNone 0 20)" by code_simp
  have h1: "assembled_ex = (fst assembled_ex, Inr (HPacker [11, 10] PNone 0 20))"
    by (rule prod_eqI, simp only: fst_conv, simp only: snd_conv s1)
  have s2: "snd built_ex = Inr (Some (HPacker [0] (PStr ''center'') 0 20))" by code_simp
  have h2: "built_ex = (fst built_ex, Inr (Some (HPacker [0] (PStr ''center'') 0 20)))"
    by (rule prod_eqI, simp only: fst_conv, simp only: snd_conv s2)
  from assemble_persists_order [of "collab_ex stable_argsort" "[10, 11]" "[0, 1]" state_ex
      "fst assembled_ex" "HPacker [11, 10] PNone 0 20" Map.empty "plot_ex (SGuide 0)" state_ex
      "fst built_ex" "HPacker [0] (PStr ''center'') 0 20"]
    h1 h2
  show ?thesis unfolding assembled_ex_def [symmetric] built_ex_def [symmetric] by blast
qed

subsection \<open>The error for an order out of range\<close>




subsection \<open>The order of the boxes\<close>

lemma stable_argsort_sorts: "argsort_sorts stable_argsort"
  by (simp add: argsort_sorts_def stable_argsort_def)

lemma sorted_order_zero_last:
  fixes key :: "nat \<Rightarrow> int"
  assumes srt: "sorted (map (\<lambda>i. normalized (key i)) idx)"
    and rng: "\<forall>i \<in> set idx. 0 \<le> key i \<and> key i \<le> 99"
    and p: "p < length idx" and q: "q < length idx"
    and zp: "key (idx ! p) = 0" and nq: "key (idx ! q) \<noteq> 0"
  shows "q < p"
proof (rule ccontr)
  assume "\<not> q < p"
  then have "p \<le> q" by simp
  with srt q have "normalized (key (idx ! p)) \<le> normalized (key (idx ! q))"
    by (simp add: sorted_iff_nth_mono)
  moreover from rng q have "key (idx ! q) \<le> 99" by simp
  ultimately show False using zp nq by (simp add: normalized_def)
qed

text \<open>
  C2 (as amended). \<open>numpy.argsort\<close> is called with its default kind, which sorts but
  does not promise to keep equal keys in their order; the model therefore assumes of
  \<open>argsort\<close> only that it returns a permutation of the positions along which the keys
  ascend. Then the boxes that \<open>assemble\<close> packs are the given boxes taken along a
  permutation of the positions of the guide definitions, in ascending normalised order,
  so that the box of a definition with order 0 comes after the box of every definition
  with an order in 1..99. Nothing is said about definitions with equal orders.
\<close>

theorem assemble_sorts_boxes:
  assumes a: "assemble C gboxes gdefs st = (st', Inr box)"
    and c: "argsort_sorts (argsort C)"
  shows "\<exists>idx. children box = map ((!) gboxes) idx
           \<and> mset idx = mset [0..<length gdefs]
           \<and> sorted (map (\<lambda>i. normalized (order (heap st (gdefs ! i)))) idx)
           \<and> (\<forall>p q. p < length idx \<and> q < length idx
                 \<and> order (heap st (gdefs ! (idx ! p))) = 0
                 \<and> order (heap st (gdefs ! (idx ! q))) \<noteq> 0 \<longrightarrow> q < p)"
proof -
  define orders where "orders = map (\<lambda>g. order (heap st' g)) gdefs"
  define idx where "idx = argsort C orders"
  from assemble_success [OF a]
  have n: "normalize_orders gdefs st = (st', Inr ())"
    and t: "take_boxes gboxes idx = Inr (children box)"
    by (simp_all add: idx_def orders_def)
  from normalize_orders_success [OF n]
  have h: "heap st' = (\<lambda>a. if a \<in> set gdefs \<and> order (heap st a) = 0
                       then (heap st a)\<lparr>order := 100\<rparr> else heap st a)"
    and r: "\<forall>a \<in> set gdefs. 0 \<le> order (heap st a) \<and> order (heap st a) \<le> 99"
    by simp_all
  from c have m: "mset idx = mset [0..<length gdefs]"
    and s: "sorted (map ((!) orders) idx)"
    by (simp_all add: argsort_sorts_def idx_def orders_def)
  from m have "set idx = set [0..<length gdefs]" by (rule mset_eq_setD)
  then have in_range: "\<forall>i \<in> set idx. i < length gdefs" by simp
  have key: "orders ! i = normalized (order (heap st (gdefs ! i)))" if "i < length gdefs" for i
    using that unfolding orders_def h by (simp add: normalized_def)
  have "map ((!) orders) idx = map (\<lambda>i. normalized (order (heap st (gdefs ! i)))) idx"
    using in_range key by simp
  with s have s': "sorted (map (\<lambda>i. normalized (order (heap st (gdefs ! i)))) idx)"
    by simp
  have rng: "\<forall>i \<in> set idx. 0 \<le> order (heap st (gdefs ! i)) \<and> order (heap st (gdefs ! i)) \<le> 99"
    using in_range r by simp
  have last: "\<forall>p q. p < length idx \<and> q < length idx
                 \<and> order (heap st (gdefs ! (idx ! p))) = 0
                 \<and> order (heap st (gdefs ! (idx ! q))) \<noteq> 0 \<longrightarrow> q < p"
    using sorted_order_zero_last [OF s' rng] by blast
  from take_boxes_Inr [OF t] have "children box = map ((!) gboxes) idx" by simp
  with m s' last show ?thesis by blast
qed

theorem assemble_sorts_boxes_witness:
  "assembled_ex = (fst assembled_ex, Inr (HPacker [11, 10] PNone 0 20))
   \<and> argsort_sorts (argsort (collab_ex stable_argsort))
   \<and> (\<exists>idx. children (HPacker [11, 10] PNone 0 20) = map ((!) [10, 11 :: nat]) idx
         \<and> mset idx = mset [0..<length [0, 1 :: nat]]
         \<and> sorted (map (\<lambda>i. normalized (order (heap state_ex ([0, 1] ! i)))) idx)
         \<and> (\<forall>p q. p < length idx \<and> q < length idx
               \<and> order (heap state_ex ([0, 1] ! (idx ! p))) = 0
               \<and> order (heap state_ex ([0, 1] ! (idx ! q))) \<noteq> 0 \<longrightarrow> q < p))"
proof -
  have s: "snd assembled_ex = Inr (HPacker [11, 10] PNone 0 20)" by code_simp
  have a: "assemble (collab_ex stable_argsort) [10, 11] [0, 1] state_ex
             = (fst assembled_ex, Inr (HPacker [11, 10] PNone 0 20))"
    unfolding assembled_ex_def [symmetric]
    by (rule prod_eqI, simp only: fst_conv, simp only: snd_conv s)
  have c: "argsort_sorts (argsort (collab_ex stable_argsort))"
    by (simp add: collab_ex_def stable_argsort_sorts)
  from assemble_sorts_boxes [OF a c] a c
  show ?thesis unfolding assembled_ex_def [symmetric] by blast
qed

text \<open>
  The claim C2 as it was stated fails in its last part. Eighteen guides of the same
  order 5, the objects at 5 to 22 with their addresses as boxes, make one part of 18
  positions for the quicksort of numpy, which therefore partitions it: the scans stop
  at every key, since none is smaller or greater than the pivot, and exchange the
  positions 1 to 7 with the positions 15 to 9. The boxes are packed in that order, so
  that the box 6 of the second guide comes after the box 20 of the sixteenth, which has
  the same order.
\<close>

theorem assemble_quicksort_reorders_ties:
  "order (heap state_ex 6) = 5 \<and> order (heap state_ex 20) = 5
   \<and> argsort (collab_ex quicksort_argsort) [5, 5, 5, 5, 5, 5, 5, 5, 5, 5, 5, 5, 5, 5, 5, 5, 5, 5]
       = [0, 15, 14, 13, 12, 11, 10, 9, 8, 7, 6, 5, 4, 3, 2, 1, 16, 17]
   \<and> snd (assemble (collab_ex quicksort_argsort)
            [5, 6, 7, 8, 9, 10, 11, 12, 13, 14, 15, 16, 17, 18, 19, 20, 21, 22]
            [5, 6, 7, 8, 9, 10, 11, 12, 13, 14, 15, 16, 17, 18, 19, 20, 21, 22] state_ex)
       = Inr (HPacker [5, 20, 19, 18, 17, 16, 15, 14, 13, 12, 11, 10, 9, 8, 7, 6, 21, 22]
                PNone 0 20)"
  by code_simp

subsection \<open>Facts about the legend options\<close>

lemma dom_fill_if_unset [simp]: "dom (fill_if_unset k v ps) = dom ps"
  by (auto simp: fill_if_unset_def)

lemma fill_if_unset_apply:
  "fill_if_unset k v ps k' = (if k' = k \<and> ps k = Some PNone then Some v else ps k')"
  by (simp add: fill_if_unset_def)

lemma fill_if_unset_keeps:
  "ps k' = Some w \<Longrightarrow> w \<noteq> PNone \<Longrightarrow> fill_if_unset k v ps k' = Some w"
  by (auto simp: fill_if_unset_def)

lemma fill_if_unset_again:
  "ps k \<noteq> Some PNone \<Longrightarrow> fill_if_unset k v ps = ps"
  by (simp add: fill_if_unset_def)

lemma set_if_none_fill:
  "k \<in> dom (params st) \<Longrightarrow>
     set_if_none k v st = (st\<lparr>params := fill_if_unset k v (params st)\<rparr>, Inr ())"
  by (auto simp: set_if_none_def fill_if_unset_def)

lemma get_param_value:
  "k \<in> dom (params st) \<Longrightarrow> get_param k st = (st, Inr (option_value (params st) k))"
  by (auto simp: get_param_def option_value_def)

lemma and_then_eq: "m st = (st1, Inr x) \<Longrightarrow> f x st1 = res \<Longrightarrow> and_then m f st = res"
  by (simp add: and_then_def)

lemma set_legend_defaults_refines:
  assumes "legend_keys \<subseteq> dom (params st)"
  shows "set_legend_defaults st = (st\<lparr>params := spec_legend_defaults (params st)\<rparr>, Inr ())"
proof -
  define ps where "ps = params st"
  define ps1 where "ps1 = fill_if_unset ''legend_box'' (PStr ''vertical'') ps"
  define ps2 where "ps2 = fill_if_unset ''legend_key_width'' (option_value ps1 ''legend_key_size'') ps1"
  define ps3 where "ps3 = fill_if_unset ''legend_key_height'' (option_value ps2 ''legend_key_size'') ps2"
  define ps4 where "ps4 = fill_if_unset ''legend_position'' (PStr ''right'') ps3"
  define position where "position = option_value ps4 ''legend_position''"
  define ps5 where "ps5 = fill_if_unset ''legend_direction''
                  (if position \<in> {PStr ''top'', PStr ''bottom''}
                   then PStr ''horizontal'' else PStr ''vertical'') ps4"
  define ps6 where "ps6 = fill_if_unset ''legend_box_just''
           (if position \<in> {PStr ''left'', PStr ''right''}
            then PStr ''left'' else PStr ''center'') ps5"
  have d: "legend_keys \<subseteq> dom ps" "dom ps1 = dom ps" "dom ps2 = dom ps" "dom ps3 = dom ps"
    "dom ps4 = dom ps" "dom ps5 = dom ps"
    using assms by (simp_all add: ps_def ps1_def ps2_def ps3_def ps4_def ps5_def)
  have k: "''legend_box'' \<in> dom ps" "''legend_key_size'' \<in> dom ps"
    "''legend_key_width'' \<in> dom ps" "''legend_key_height'' \<in> dom ps"
    "''legend_position'' \<in> dom ps" "''legend_direction'' \<in> dom ps"
    "''legend_box_just'' \<in> dom ps"
    using d(1) by (simp_all add: legend_keys_def)
  have e1: "set_if_none ''legend_box'' (PStr ''vertical'') st = (st\<lparr>params := ps1\<rparr>, Inr ())"
    using k by (simp add: set_if_none_fill ps_def ps1_def)
  have e2: "get_param ''legend_key_size'' (st\<lparr>params := ps1\<rparr>)
              = (st\<lparr>params := ps1\<rparr>, Inr (option_value ps1 ''legend_key_size''))"
    using k d by (simp add: get_param_value)
  have e3: "set_if_none ''legend_key_width'' (option_value ps1 ''legend_key_size'') (st\<lparr>params := ps1\<rparr>)
              = (st\<lparr>params := ps2\<rparr>, Inr ())"
    using k d by (simp add: set_if_none_fill ps2_def)
  have e4: "get_param ''legend_key_size'' (st\<lparr>params := ps2\<rparr>)
              = (st\<lparr>params := ps2\<rparr>, Inr (option_value ps2 ''legend_key_size''))"
    using k d by (simp add: get_param_value)
  have e5: "set_if_none ''legend_key_height'' (option_value ps2 ''legend_key_size'') (st\<lparr>params := ps2\<rparr>)
              = (st\<lparr>params := ps3\<rparr>, Inr ())"
    using k d by (simp add: set_if_none_fill ps3_def)
  have "ps3 ''legend_box'' \<noteq> Some PNone"
    by (simp add: ps3_def ps2_def ps1_def fill_if_unset_apply)
  then have e6: "set_if_none ''legend_box'' (PStr ''vertical'') (st\<lparr>params := ps3\<rparr>)
              = (st\<lparr>params := ps3\<rparr>, Inr ())"
    using k d by (simp add: set_if_none_fill fill_if_unset_again)
  have e7: "set_if_none ''legend_position'' (PStr ''right'') (st\<lparr>params := ps3\<rparr>)
              = (st\<lparr>params := ps4\<rparr>, Inr ())"
    using k d by (simp add: set_if_none_fill ps4_def)
  have e8: "get_param ''legend_position'' (st\<lparr>params := ps4\<rparr>)
              = (st\<lparr>params := ps4\<rparr>, Inr position)"
    using k d by (simp add: get_param_value position_def)
  have e9: "(if position \<in> {PStr ''top'', PStr ''bottom''}
        then set_if_none ''legend_direction'' (PStr ''horizontal'')
        else set_if_none ''legend_direction'' (PStr ''vertical'')) (st\<lparr>params := ps4\<rparr>)
              = (st\<lparr>params := ps5\<rparr>, Inr ())"
    using k d by (simp add: set_if_none_fill ps5_def)
  have e10: "(if position \<in> {PStr ''left'', PStr ''right''}
     then set_if_none ''legend_box_just'' (PStr ''left'')
     else set_if_none ''legend_box_just'' (PStr ''center'')) (st\<lparr>params := ps5\<rparr>)
              = (st\<lparr>params := ps6\<rparr>, Inr ())"
    using k d by (simp add: set_if_none_fill ps6_def)
  have "set_legend_defaults st = (st\<lparr>params := ps6\<rparr>, Inr ())"
    unfolding set_legend_defaults_def
    apply (rule and_then_eq, rule e1)
    apply (rule and_then_eq, rule e2)
    apply (rule and_then_eq, rule e3)
    apply (rule and_then_eq, rule e4)
    apply (rule and_then_eq, rule e5)
    apply (rule and_then_eq, rule e6)
    apply (rule and_then_eq, rule e7)
    apply (rule and_then_eq, rule e8)
    apply (rule and_then_eq, rule e9)
    apply (rule e10)
    done
  moreover have "ps6 = spec_legend_defaults (params st)"
    by (simp add: spec_legend_defaults_def Let_def ps6_def ps5_def position_def ps4_def ps3_def
        ps2_def ps1_def ps_def)
  ultimately show ?thesis by simp
qed

lemma spec_legend_defaults_keeps:
  assumes "ps k = Some v" "v \<noteq> PNone"
  shows "spec_legend_defaults ps k = Some v"
  unfolding spec_legend_defaults_def Let_def
  by (intro fill_if_unset_keeps assms)

lemma spec_legend_defaults_bottom:
  assumes "ps ''legend_position'' = Some (PStr ''bottom'')"
    "ps ''legend_direction'' = Some PNone" "ps ''legend_box_just'' = Some PNone"
  shows "spec_legend_defaults ps ''legend_direction'' = Some (PStr ''horizontal'')"
    "spec_legend_defaults ps ''legend_box_just'' = Some (PStr ''center'')"
  using assms
  by (simp_all add: spec_legend_defaults_def Let_def fill_if_unset_apply option_value_def)

lemma preserves_params_stages [intro!, simp]:
  "preserves params (train C self plt)"
  "preserves params (merge C gdefs)"
  "preserves params (create_geoms C gdefs plt)"
  "preserves params (draw C gdefs)"
  "preserves params (assemble C gboxes gdefs)"
proof -
  show "preserves params (train C self plt)"
    unfolding preserves_def train_def using train_loop_frame by blast
  show "preserves params (merge C gdefs)"
    unfolding preserves_def using merge_frame by blast
  show "preserves params (create_geoms C gdefs plt)"
    unfolding preserves_def
  proof (intro allI impI)
    fix st st' :: "('a, 'b, 'c) state" and r
    assume "create_geoms C gdefs plt st = (st', r)"
    with create_geoms_total [of C gdefs plt st] show "params st' = params st" by auto
  qed
  show "preserves params (draw C gdefs)"
    unfolding preserves_def
  proof (intro allI impI)
    fix st st' :: "('a, 'b, 'c) state" and r
    assume "draw C gdefs st = (st', r)"
    with draw_total [of C gdefs st] show "params st' = params st" by auto
  qed
  show "preserves params (assemble C gboxes gdefs)"
    unfolding preserves_def using assemble_frame by blast
qed

lemma build_params:
  assumes "build C self plt st = (st', r)"
  shows "\<exists>st1 r1. set_legend_defaults st = (st1, r1) \<and> params st' = params st1"
proof -
  let ?K = "\<lambda>x :: unit. and_then (train C self plt) (\<lambda>gdefs1.
     if gdefs1 = [] then return None
     else
       and_then (merge C gdefs1) (\<lambda>gdefs2.
       and_then (create_geoms C gdefs2 plt) (\<lambda>gdefs3.
       if gdefs3 = [] then return None
       else
         and_then (draw C gdefs3) (\<lambda>gboxes.
         and_then (assemble C gboxes gdefs3) (\<lambda>bigbox.
         return (Some bigbox))))))"
  have K: "preserves params (?K x)" for x
    by (intro preserves_and_then preserves_if preserves_return preserves_params_stages)
  obtain st1 r1 where s: "set_legend_defaults st = (st1, r1)"
    by (cases "set_legend_defaults st")
  have b: "and_then set_legend_defaults ?K st = (st', r)"
    using assms unfolding build_def .
  show ?thesis
  proof (cases r1)
    case (Inl e)
    with s b have "st' = st1" by (simp add: and_then_def)
    with s show ?thesis by blast
  next
    case (Inr x)
    with s b have "?K x st1 = (st', r)" by (simp add: and_then_def)
    from preservesD [OF K this] s show ?thesis by blast
  qed
qed

lemma legend_keys_params_ex: "legend_keys \<subseteq> dom (params state_ex)"
  by (simp add: legend_keys_def state_ex_def params_ex_def)

subsection \<open>The legend options of the theme\<close>

text \<open>
  C8. Let the theme's dictionary hold the seven legend keys, with \<open>legend_position\<close> set
  to \<open>'bottom'\<close> and with \<open>None\<close> for \<open>legend_direction\<close> and for \<open>legend_box_just\<close>.
  After \<open>build\<close>, whatever it returns or raises, \<open>legend_direction\<close> is \<open>'horizontal'\<close>
  and \<open>legend_box_just\<close> is \<open>'center'\<close>; and every option that had a value other than
  \<open>None\<close> before still has that value.
\<close>

theorem build_bottom_legend:
  assumes "legend_keys \<subseteq> dom (params st)"
    and "params st ''legend_position'' = Some (PStr ''bottom'')"
    and "params st ''legend_direction'' = Some PNone"
    and "params st ''legend_box_just'' = Some PNone"
    and "build C self plt st = (st', r)"
  shows "params st' ''legend_direction'' = Some (PStr ''horizontal'')
         \<and> params st' ''legend_box_just'' = Some (PStr ''center'')
         \<and> (\<forall>k v. params st k = Some v \<and> v \<noteq> PNone \<longrightarrow> params st' k = Some v)"
proof -
  from build_params [OF assms(5)] set_legend_defaults_refines [OF assms(1)]
  have p: "params st' = spec_legend_defaults (params st)" by auto
  show ?thesis
    unfolding p
    using spec_legend_defaults_bottom [OF assms(2-4)] spec_legend_defaults_keeps
    by blast
qed

theorem build_bottom_legend_witness:
  "legend_keys \<subseteq> dom (params state_ex)
   \<and> params state_ex ''legend_position'' = Some (PStr ''bottom'')
   \<and> params state_ex ''legend_direction'' = Some PNone
   \<and> params state_ex ''legend_box_just'' = Some PNone
   \<and> params (fst built_ex) ''legend_direction'' = Some (PStr ''horizontal'')
   \<and> params (fst built_ex) ''legend_box_just'' = Some (PStr ''center'')
   \<and> params state_ex ''legend_key_height'' = Some (PNum 10)
   \<and> params (fst built_ex) ''legend_key_height'' = Some (PNum 10)"
proof -
  have a: "params state_ex ''legend_position'' = Some (PStr ''bottom'')"
    "params state_ex ''legend_direction'' = Some PNone"
    "params state_ex ''legend_box_just'' = Some PNone"
    by (simp_all add: state_ex_def params_ex_def)
  have c: "params state_ex ''legend_key_height'' = Some (PNum 10)" "PNum 10 \<noteq> PNone"
    by (simp_all add: state_ex_def params_ex_def)
  have b: "build (collab_ex stable_argsort) Map.empty (plot_ex (SGuide 0)) state_ex
             = (fst built_ex, snd built_ex)"
    by (simp add: built_ex_def)
  from build_bottom_legend [OF legend_keys_params_ex a b] legend_keys_params_ex a c
  show ?thesis by blast
qed

text \<open>
  C9. Let the theme's dictionary hold the seven legend keys and let the plot have no
  scales. Then \<open>build\<close> returns \<open>None\<close>, and the state it leaves differs from the one it
  was given only in the theme's dictionary, which is the result of the five steps of
  the specification: each of the options \<open>legend_box\<close>, \<open>legend_key_width\<close>,
  \<open>legend_key_height\<close>, \<open>legend_position\<close>, \<open>legend_direction\<close> and \<open>legend_box_just\<close>
  receives its default if it was \<open>None\<close> and is left alone otherwise.
\<close>

theorem build_empty_scales:
  assumes "scales plt = []" and "legend_keys \<subseteq> dom (params st)"
  shows "build C self plt st = (st\<lparr>params := spec_legend_defaults (params st)\<rparr>, Inr None)"
proof -
  have t: "train C self plt (st\<lparr>params := spec_legend_defaults (params st)\<rparr>)
          = (st\<lparr>params := spec_legend_defaults (params st)\<rparr>, Inr [])"
    using assms(1) by (simp add: train_def)
  show ?thesis
    unfolding build_def
    apply (rule and_then_eq)
     apply (rule set_legend_defaults_refines [OF assms(2)])
    apply (rule and_then_eq)
     apply (rule t)
    apply (simp add: return_def)
    done
qed

theorem build_empty_scales_witness:
  "scales plot_empty_ex = [] \<and> legend_keys \<subseteq> dom (params state_ex)
   \<and> build (collab_ex stable_argsort) Map.empty plot_empty_ex state_ex
       = (state_ex\<lparr>params := spec_legend_defaults (params state_ex)\<rparr>, Inr None)"
proof -
  have a: "scales plot_empty_ex = []" by (simp add: plot_empty_ex_def)
  from build_empty_scales [OF a legend_keys_params_ex] a legend_keys_params_ex
  show ?thesis by blast
qed

subsection \<open>Which guide a scale gets\<close>







subsection \<open>Validation of a guide specification\<close>

text \<open>
  C6 (as amended). A string \<open>s\<close> is looked up in the registry under \<open>"guide_" + s\<close> and
  the entry is called without arguments. If that fails, the failure of the registry is
  what \<open>validate\<close> raises; if it returns a guide object, that object is the result; if it
  returns anything else, \<open>validate\<close> raises the error "Unknown guide". A guide object is
  returned as it is, and any other specification that is not a string raises
  "Unknown guide".
\<close>

theorem validate_cases:
  "validate C (SStr s) st =
     (case registry C (''guide_'' @ s) (heap st) of
        (Inl e, h) \<Rightarrow> (st\<lparr>heap := h\<rparr>, Inl e)
      | (Inr g, h) \<Rightarrow>
          (case g of
             SGuide a \<Rightarrow> (st\<lparr>heap := h\<rparr>, Inr a)
           | _ \<Rightarrow> (st\<lparr>heap := h\<rparr>, Inl (GgplotError [''Unknown guide: '' @ format_spec g]))))
   \<and> validate C (SGuide a) st = (st, Inr a)
   \<and> ((\<forall>s'. g0 \<noteq> SStr s') \<and> (\<forall>a'. g0 \<noteq> SGuide a') \<longrightarrow>
        validate C g0 st = (st, Inl (GgplotError [''Unknown guide: '' @ format_spec g0])))"
  by (cases g0) (simp_all add: validate_def)

theorem validate_cases_witness:
  "validate (collab_ex stable_argsort) (SStr ''legend'') state_ex = (state_ex, Inr 1)
   \<and> validate (collab_ex stable_argsort) (SGuide 3) state_ex = (state_ex, Inr 3)
   \<and> (\<forall>s'. SOther ''5'' \<noteq> SStr s') \<and> (\<forall>a'. SOther ''5'' \<noteq> SGuide a')
   \<and> validate (collab_ex stable_argsort) (SOther ''5'') state_ex
       = (state_ex, Inl (GgplotError [''Unknown guide: 5'']))"
proof -
  have r: "registry (collab_ex stable_argsort) ''guide_legend'' (heap state_ex)
             = (Inr (SGuide 1), heap state_ex)"
    by (simp add: collab_ex_def registry_ex_def)
  have n: "(\<forall>s'. SOther ''5'' \<noteq> SStr s') \<and> (\<forall>a'. SOther ''5'' \<noteq> SGuide a')" by simp
  from validate_cases [of "collab_ex stable_argsort" "''legend''" state_ex 3 "SOther ''5''"] n
  show ?thesis by (simp add: r)
qed

text \<open>
  The claim C6 as it was stated fails for a string that is not registered: with a
  registry that has only the entry \<open>guide_legend\<close> and fails on any other key as a Python
  mapping does, the string \<open>'colorbar'\<close> raises the error of the lookup, not
  "Unknown guide".
\<close>

theorem validate_unregistered:
  "fst (registry (collab_ex stable_argsort) ''guide_colorbar'' (heap state_ex))
     = Inl (KeyError ''guide_colorbar'')
   \<and> snd (validate (collab_ex stable_argsort) (SStr ''colorbar'') state_ex)
       = Inl (KeyError ''guide_colorbar'')"
  by code_simp

subsection \<open>Grouping and merging\<close>

lemma sum_list_no_key:
  "k \<notin> set ks \<Longrightarrow> (\<Sum>k' \<leftarrow> ks. if k = k' then {#x#} else {#}) = {#}"
  by (induction ks) auto

lemma sum_list_single_key:
  "distinct ks \<Longrightarrow> k \<in> set ks \<Longrightarrow>
     (\<Sum>k' \<leftarrow> ks. if k = k' then {#x#} else {#}) = {#x#}"
  by (induction ks) (auto simp: sum_list_no_key)

lemma image_mset_sum_list:
  "image_mset f (\<Sum>k \<leftarrow> ks. g k) = (\<Sum>k \<leftarrow> ks. image_mset f (g k))"
  by (induction ks) simp_all

lemma mset_partition_by_key:
  assumes "distinct ks" "fst ` set rows \<subseteq> set ks"
  shows "(\<Sum>k \<leftarrow> ks. mset (filter (\<lambda>r. fst r = k) rows)) = mset rows"
  using assms(2)
proof (induction rows)
  case Nil
  then show ?case by (simp add: sum_list_0)
next
  case (Cons r rows)
  then have in_ks: "fst r \<in> set ks" and sub: "fst ` set rows \<subseteq> set ks" by simp_all
  have "(\<Sum>k \<leftarrow> ks. mset (filter (\<lambda>r'. fst r' = k) (r # rows)))
        = (\<Sum>k \<leftarrow> ks. (if fst r = k then {#r#} else {#}) + mset (filter (\<lambda>r'. fst r' = k) rows))"
    by (intro arg_cong [where f = sum_list] map_cong) auto
  also have "\<dots> = (\<Sum>k \<leftarrow> ks. if fst r = k then {#r#} else {#})
                   + (\<Sum>k \<leftarrow> ks. mset (filter (\<lambda>r'. fst r' = k) rows))"
    by (simp add: sum_list_addf)
  also have "\<dots> = {#r#} + mset rows"
    using sum_list_single_key [OF assms(1) in_ks] Cons.IH [OF sub] by simp
  finally show ?case by simp
qed

lemma groupby_partition: "mset (concat (map snd (groupby rows))) = mset (map snd rows)"
proof -
  let ?ks = "sort (remdups (map fst rows))"
  have "mset (concat (map snd (groupby rows)))
        = (\<Sum>k \<leftarrow> ?ks. mset (map snd (filter (\<lambda>r. fst r = k) rows)))"
    by (simp add: groupby_def mset_concat comp_def)
  also have "\<dots> = image_mset snd (\<Sum>k \<leftarrow> ?ks. mset (filter (\<lambda>r. fst r = k) rows))"
    by (simp add: image_mset_sum_list)
  also have "\<dots> = image_mset snd (mset rows)"
    by (subst mset_partition_by_key) simp_all
  finally show ?thesis by simp
qed

lemma merge_group_foldl:
  "merge_group C g gs h = foldl (\<lambda>(gdef, h') g'. g_merge C gdef g' h') (g, h) gs"
  by (induction gs arbitrary: g h) (auto split: prod.splits)

lemma merge_loop_foldl:
  assumes "\<forall>p \<in> set groups. snd p \<noteq> []"
  shows "merge_loop C groups acc st =
     (st\<lparr>heap := snd (foldl (\<lambda>(out, h') p. case fold_group C (snd p) h' of
                                    (gdef, h'') \<Rightarrow> (out @ [gdef], h''))
                          (acc, heap st) groups)\<rparr>,
      Inr (fst (foldl (\<lambda>(out, h') p. case fold_group C (snd p) h' of
                                    (gdef, h'') \<Rightarrow> (out @ [gdef], h''))
                          (acc, heap st) groups)))"
  using assms
proof (induction groups arbitrary: acc st)
  case Nil
  then show ?case by simp
next
  case (Cons p rest)
  obtain k g gs where p: "p = (k, g # gs)"
    using Cons.prems by (cases p; cases "snd p") auto
  obtain gdef h where mg: "merge_group C g gs (heap st) = (gdef, h)"
    by (cases "merge_group C g gs (heap st)")
  then have fg: "fold_group C (g # gs) (heap st) = (gdef, h)"
    by (simp add: fold_group_def merge_group_foldl)
  from Cons.prems have "\<forall>p \<in> set rest. snd p \<noteq> []" by simp
  from Cons.IH [OF this, of "acc @ [gdef]" "st\<lparr>heap := h\<rparr>"] p mg fg
  show ?case by simp
qed

lemma length_fold_groups_aux:
  "length (fst (foldl (\<lambda>(out, h') p. case fold_group C (snd p) h' of
                                    (gdef, h'') \<Rightarrow> (out @ [gdef], h''))
                          (acc, h) groups)) = length acc + length groups"
  by (induction groups arbitrary: acc h) (auto split: prod.splits)

text \<open>
  C7. Let \<open>groups\<close> be the groups that \<open>merge\<close> iterates over for a list \<open>gdefs\<close>. The
  groups taken together hold every element of \<open>gdefs\<close> as often as \<open>gdefs\<close> does (none
  lost, none duplicated); different groups have different hashes; a group is not empty
  and consists of the definitions of \<open>gdefs\<close> whose hash equals the hash of the group, in
  the order of \<open>gdefs\<close>. \<open>merge\<close> does not raise: it returns one definition for every
  group, namely the results of folding the groups from the left with the pairwise merge
  of the guides, and the objects are left as these folds leave them; nothing else of
  the state changes.
\<close>

theorem merge_partitions:
  assumes "groups = groupby (map (\<lambda>g. (hash (heap st g), g)) gdefs)"
  shows "mset (concat (map snd groups)) = mset gdefs
     \<and> distinct (map fst groups)
     \<and> (\<forall>p \<in> set groups. snd p \<noteq> []
           \<and> snd p = filter (\<lambda>g. hash (heap st g) = fst p) gdefs)
     \<and> merge C gdefs st
         = (st\<lparr>heap := snd (fold_groups C groups (heap st))\<rparr>,
            Inr (fst (fold_groups C groups (heap st))))
     \<and> length (fst (fold_groups C groups (heap st))) = length groups"
proof (intro conjI)
  show "mset (concat (map snd groups)) = mset gdefs"
    unfolding assms by (simp add: groupby_partition comp_def)
  show "distinct (map fst groups)"
    unfolding assms by (simp add: groupby_keys)
  show ne: "\<forall>p \<in> set groups. snd p \<noteq> [] \<and> snd p = filter (\<lambda>g. hash (heap st g) = fst p) gdefs"
  proof
    fix p assume "p \<in> set groups"
    then have "(fst p, snd p) \<in> set (groupby (map (\<lambda>g. (hash (heap st g), g)) gdefs))"
      unfolding assms by simp
    from groupby_member [OF this]
    have "snd p \<noteq> []"
      and "snd p = map snd (filter (\<lambda>r. fst r = fst p) (map (\<lambda>g. (hash (heap st g), g)) gdefs))"
      by blast+
    moreover have "map snd (filter (\<lambda>r. fst r = fst p) (map (\<lambda>g. (hash (heap st g), g)) gdefs))
        = filter (\<lambda>g. hash (heap st g) = fst p) gdefs"
      by (induction gdefs) simp_all
    ultimately show "snd p \<noteq> [] \<and> snd p = filter (\<lambda>g. hash (heap st g) = fst p) gdefs"
      by simp
  qed
  then have "\<forall>p \<in> set groups. snd p \<noteq> []" by blast
  from merge_loop_foldl [OF this, of C "[]" st]
  show "merge C gdefs st
         = (st\<lparr>heap := snd (fold_groups C groups (heap st))\<rparr>,
            Inr (fst (fold_groups C groups (heap st))))"
    unfolding merge_def assms [symmetric] fold_groups_def .
  show "length (fst (fold_groups C groups (heap st))) = length groups"
    unfolding fold_groups_def by (simp add: length_fold_groups_aux)
qed

theorem merge_partitions_witness:
  "groups_ex = groupby (map (\<lambda>g. (hash (heap state_ex g), g)) [0, 1, 3])
   \<and> mset (concat (map snd groups_ex)) = mset [0, 1, 3]
   \<and> distinct (map fst groups_ex)
   \<and> groups_ex ! 1 \<in> set groups_ex
   \<and> snd (groups_ex ! 1) \<noteq> []
   \<and> snd (groups_ex ! 1) = filter (\<lambda>g. hash (heap state_ex g) = fst (groups_ex ! 1)) [0, 1, 3]
   \<and> merge collab_merging_ex [0, 1, 3] state_ex
       = (state_ex\<lparr>heap := snd (fold_groups collab_merging_ex groups_ex (heap state_ex))\<rparr>,
          Inr (fst (fold_groups collab_merging_ex groups_ex (heap state_ex))))
   \<and> length (fst (fold_groups collab_merging_ex groups_ex (heap state_ex))) = length groups_ex
   \<and> fst (fold_groups collab_merging_ex groups_ex (heap state_ex)) = [0, 1]
   \<and> order (snd (fold_groups collab_merging_ex groups_ex (heap state_ex)) 1) = 10
   \<and> order (heap state_ex 1) = 5
   \<and> order (heap (fst (merge collab_merging_ex [0, 1, 3] state_ex)) 1) = 10"
proof -
  have h: "groups_ex = groupby (map (\<lambda>g. (hash (heap state_ex g), g)) [0, 1, 3])"
    by code_simp
  have mem: "groups_ex ! 1 \<in> set groups_ex"
    by (simp add: groups_ex_def)
  have v: "fst (fold_groups collab_merging_ex groups_ex (heap state_ex)) = [0, 1]
   \<and> order (snd (fold_groups collab_merging_ex groups_ex (heap state_ex)) 1) = 10
   \<and> order (heap state_ex 1) = 5
   \<and> order (heap (fst (merge collab_merging_ex [0, 1, 3] state_ex)) 1) = 10"
    by code_simp
  note T = merge_partitions [OF h, of collab_merging_ex]
  from T have c: "\<forall>p \<in> set groups_ex. snd p \<noteq> []
           \<and> snd p = filter (\<lambda>g. hash (heap state_ex g) = fst p) [0, 1, 3]"
    by blast
  from c mem have c': "snd (groups_ex ! 1) \<noteq> []
     \<and> snd (groups_ex ! 1) = filter (\<lambda>g. hash (heap state_ex g) = fst (groups_ex ! 1)) [0, 1, 3]"
    by (rule bspec)
  from T h mem c' v show ?thesis by blast
qed

end
